theory Spec2Isabelle
  imports Main "HOL-Library.Log_Nat"
begin

section \<open>Floating-point values\<close>

text \<open>
  The notebook computes on numpy arrays of floating-point numbers. A finite floating-point
  value is modelled by the rational number it denotes. An arithmetic operation computes the
  exact result and rounds it to the nearest value with \<open>p\<close> significant bits, ties going to
  the even significand (the default rounding of IEEE 754 and of numpy): \<open>p = 53\<close> is numpy's
  \<open>float64\<close>, \<open>p = 64\<close> the extended precision of \<open>longdouble\<close> on x86. Comparisons are
  exact. The exponent range of the arithmetic is not bounded: adding \<open>1.0\<close> to a negative
  number can neither overflow nor produce an inexact subnormal result. The conversion to
  \<open>float64\<close>, further down, has the exponent range of \<open>float64\<close>.
\<close>

type_synonym float = rat

text \<open>Nearest integer, ties to even.\<close>

definition rne :: "rat \<Rightarrow> int" where
  "rne q = (let n = \<lfloor>q\<rfloor>; f = q - of_int n in
     if f < 1 / 2 then n else if 1 / 2 < f then n + 1 else if even n then n else n + 1)"

text \<open>The binary exponent of a positive rational: \<open>2 powi ilog2 q \<le> q < 2 powi (ilog2 q + 1)\<close>.\<close>

definition ilog2 :: "rat \<Rightarrow> int" where
  "ilog2 q = (if 1 \<le> q then bitlen \<lfloor>q\<rfloor> - 1 else - bitlen (\<lceil>1 / q\<rceil> - 1))"

text \<open>Rounding to \<open>p\<close> significant bits: the unit in the last place of \<open>r\<close> is \<open>u\<close>.\<close>

definition fround :: "nat \<Rightarrow> rat \<Rightarrow> float" where
  "fround p r = (if r = 0 then 0 else
     (let u = 2 powi (ilog2 \<bar>r\<bar> - int p + 1) in of_int (rne (r / u)) * u))"

definition fadd :: "nat \<Rightarrow> float \<Rightarrow> float \<Rightarrow> float" where
  "fadd p x y = fround p (x + y)"

text \<open>A rational is a value of the format when rounding leaves it alone.\<close>

definition float_repr :: "nat \<Rightarrow> rat \<Rightarrow> bool" where
  "float_repr p r = (fround p r = r)"

definition float64 :: nat where
  "float64 = 53"


section \<open>Phase computation\<close>

text \<open>
  \<^verbatim>\<open>phases = model.phase(toas, abs_phase=True)[1]\<close>
  \<^verbatim>\<open>phases = np.where(phases < 0.0, phases + 1.0, phases)\<close>

  \<open>np.where\<close> selects elementwise between two arrays of the shape of the condition; the
  comparison and the sum are computed for the whole array first.
\<close>

definition np_where :: "bool list \<Rightarrow> 'a list \<Rightarrow> 'a list \<Rightarrow> 'a list" where
  "np_where cond xs ys = map (\<lambda>(c, x, y). if c then x else y) (zip cond (zip xs ys))"

definition shift_phases :: "nat \<Rightarrow> float list \<Rightarrow> float list" where
  "shift_phases p phases =
     np_where (map (\<lambda>x. x < 0) phases) (map (\<lambda>x. fadd p x 1) phases) phases"

text \<open>
  A \<open>float64\<close> value: a finite number or an infinity. (Not-a-number is left out: no
  operation here produces it from numbers.)
\<close>

datatype f64 = Finite float | PosInf | NegInf

text \<open>The order of \<open>float64\<close> values.\<close>

fun f64_less :: "f64 \<Rightarrow> f64 \<Rightarrow> bool" where
  "f64_less (Finite x) (Finite y) = (x < y)"
| "f64_less (Finite x) PosInf = True"
| "f64_less (Finite x) NegInf = False"
| "f64_less PosInf b = False"
| "f64_less NegInf (Finite y) = True"
| "f64_less NegInf PosInf = True"
| "f64_less NegInf NegInf = False"

text \<open>
  Conversion to \<open>float64\<close> with its exponent range: 53 significant bits, rounded to
  nearest, ties to even, but a spacing of never less than \<open>2^-1074\<close>, so that small values
  lose bits and the smallest go to zero; a value that rounds to a magnitude of \<open>2^1024\<close> or
  more overflows to the infinity of its sign.
\<close>

definition to_float64 :: "float \<Rightarrow> f64" where
  "to_float64 r = (if r = 0 then Finite 0 else
     (let u = 2 powi (max (ilog2 \<bar>r\<bar>) (- 1022) - 52);
          y = of_int (rne (r / u)) * u
      in if 2 ^ 1024 \<le> y then PosInf else if y \<le> - (2 ^ 1024) then NegInf else Finite y))"

text \<open>\<^verbatim>\<open>phases.astype("float64")\<close>\<close>

definition astype_float64 :: "float list \<Rightarrow> f64 list" where
  "astype_float64 xs = map to_float64 xs"

text \<open>Membership in the half-open and in the closed unit interval.\<close>

definition in_unit_ho :: "float \<Rightarrow> bool" where
  "in_unit_ho y = (0 \<le> y \<and> y < 1)"


section \<open>Timing model, observation and the time-window check\<close>

text \<open>
  Of the timing model the notebook's own code reads the validity window,
  \<^verbatim>\<open>model.START.value\<close> and \<^verbatim>\<open>model.FINISH.value\<close>: an MJD each, or \<open>None\<close>
  when the parameter file does not set it. The observation is the one the data store
  delivered: its identifier, its start and stop time (\<^verbatim>\<open>observation.tstart.tt.mjd\<close>, a
  \<open>float64\<close> MJD in the TT scale, as the window is), its event times
  (\<^verbatim>\<open>observation.events.time\<close>) and the location of the file its event list is read from.
\<close>

record timing_model =
  START :: "float option"
  FINISH :: "float option"

record observation =
  obs_id :: int
  tstart :: float
  tstop :: float
  event_time :: "float list"
  events_hdu :: string

text \<open>
  The module-level state of the notebook that \<open>check_time\<close> touches: the variable
  \<^verbatim>\<open>model\<close> and the records emitted through the logger \<^verbatim>\<open>log\<close>.
\<close>

datatype level = WARNING

record globals =
  model :: timing_model
  logged :: "(level \<times> string) list"

datatype error = ValueError | FileNotFoundError

text \<open>Python's \<^verbatim>\<open>str\<close> of an integer, as the f-string of the warning uses it.\<close>

definition digit_char :: "nat \<Rightarrow> char" where
  "digit_char d = ''0123456789'' ! d"

fun str_nat :: "nat \<Rightarrow> string" where
  "str_nat n = (if n < 10 then [digit_char n] else str_nat (n div 10) @ [digit_char (n mod 10)])"

declare str_nat.simps [simp del]

definition str_int :: "int \<Rightarrow> string" where
  "str_int i = (if i < 0 then CHR ''-'' # str_nat (nat (- i)) else str_nat (nat i))"

definition warning_message :: "observation \<Rightarrow> string" where
  "warning_message observation =
     ''Warning: Observation time of observation '' @ str_int (obs_id observation) @
     '' goes out of timing model validity time.''"

text \<open>
  \<^verbatim>\<open>def check_time(observation, timing_model):\<close>
  \<^verbatim>\<open>    model_time = Time([model.START.value, model.FINISH.value], scale="tt", format="mjd")\<close>
  \<^verbatim>\<open>    if (model_time[0].value > observation.tstart.tt.mjd) or (\<close>
  \<^verbatim>\<open>        model_time[1].value < observation.tstop.tt.mjd):\<close>
  \<^verbatim>\<open>        log.warning(f"Warning: ...")\<close>

  The body reads the module-level \<^verbatim>\<open>model\<close>; the parameter \<open>timing_model\<close> is
  never used. The \<open>Time\<close> array is built without a guard: with \<open>None\<close> for either end it
  raises \<open>ValueError\<close>. Its \<^verbatim>\<open>value\<close> gives the window back as \<open>float64\<close> numbers, and
  these are what the comparisons see. The function has no \<^verbatim>\<open>raise\<close> and no
  \<^verbatim>\<open>return\<close> of its own: where \<open>Time\<close> does not raise, it hands back the state, with
  one more log record or none.
\<close>

definition check_time :: "globals \<Rightarrow> observation \<Rightarrow> timing_model \<Rightarrow> error + globals" where
  "check_time g observation timing_model =
     (case (START (model g), FINISH (model g)) of
        (Some start, Some finish) \<Rightarrow>
          (let model_time = [to_float64 start, to_float64 finish] in
           if f64_less (Finite (tstart observation)) (model_time ! 0) \<or>
              f64_less (model_time ! 1) (Finite (tstop observation))
           then Inr (g\<lparr>logged := logged g @ [(WARNING, warning_message observation)]\<rparr>)
           else Inr g)
      | _ \<Rightarrow> Inl ValueError)"

text \<open>
  The cells from the check to the wrapped phases, run in order: an exception ends the run.
  The phase evaluator of the timing library (times of arrival built from the event times,
  then \<^verbatim>\<open>model.phase(toas, abs_phase=True)[1]\<close>) is the parameter \<open>phase\<close>.
\<close>

definition compute_phases ::
  "nat \<Rightarrow> (timing_model \<Rightarrow> float list \<Rightarrow> float list) \<Rightarrow> globals \<Rightarrow> observation
     \<Rightarrow> error + globals \<times> float list" where
  "compute_phases p phase g observation =
     (let times = event_time observation in
      case check_time g observation (model g) of
        Inl e \<Rightarrow> Inl e
      | Inr g' \<Rightarrow> (let phases = phase (model g') times in Inr (g', shift_phases p phases)))"

section \<open>Event table and its metadata\<close>

text \<open>
  An astropy table: named columns of \<open>float64\<close> values, in order, and the metadata
  mapping \<^verbatim>\<open>table.meta\<close>.
\<close>

record table =
  columns :: "(string \<times> f64 list) list"
  meta :: "string \<rightharpoonup> string"

text \<open>\<^verbatim>\<open>table.meta[key] = val\<close>\<close>

definition meta_setitem :: "table \<Rightarrow> string \<Rightarrow> string \<Rightarrow> table" where
  "meta_setitem t key val = t\<lparr>meta := (meta t)(key \<mapsto> val)\<rparr>"

text \<open>\<^verbatim>\<open>table.meta["PH_LOG"] = phase_log\<close>\<close>

definition add_phase_log :: "table \<Rightarrow> string \<Rightarrow> table" where
  "add_phase_log t phase_log = meta_setitem t ''PH_LOG'' phase_log"

text \<open>
  \<^verbatim>\<open>table[name] = values\<close> for a one-dimensional array. The number of rows of a table is
  the length of its columns. A new name appends a column: an array of one element is spread
  over the rows of a table that has rows, and an array of another length than the table's
  is refused. An existing name has its column replaced by the array when the length fits or
  the column is the only one; otherwise the array is written into the column, which only an
  array of one element allows.
\<close>

definition nrows :: "table \<Rightarrow> nat" where
  "nrows t = (case columns t of [] \<Rightarrow> 0 | c # _ \<Rightarrow> length (snd c))"

definition replace_column :: "table \<Rightarrow> string \<Rightarrow> f64 list \<Rightarrow> table" where
  "replace_column t name vals =
     t\<lparr>columns := map (\<lambda>c. if fst c = name then (name, vals) else c) (columns t)\<rparr>"

definition table_setitem :: "table \<Rightarrow> string \<Rightarrow> f64 list \<Rightarrow> error + table" where
  "table_setitem t name vals =
     (if name \<notin> set (map fst (columns t))
      then (let col = (if length vals = 1 \<and> 0 < nrows t
                       then replicate (nrows t) (hd vals) else vals)
            in if columns t \<noteq> [] \<and> length col \<noteq> nrows t then Inl ValueError
               else Inr (t\<lparr>columns := columns t @ [(name, col)]\<rparr>))
      else if length (columns t) \<le> 1 \<or> length vals = nrows t
      then Inr (replace_column t name vals)
      else if length vals = 1
      then Inr (replace_column t name (replicate (nrows t) (hd vals)))
      else Inl ValueError)"

text \<open>
  The cells that add the phases to the event list. The observation is file-backed: each
  access to \<^verbatim>\<open>observation.events\<close> reads the events file anew and yields a table object
  of its own. Table objects are named by references; files map a location to the table
  stored there.
\<close>

record event_store =
  event_tables :: "nat \<Rightarrow> table"
  next_table :: nat
  event_files :: "string \<rightharpoonup> table"

definition load_events :: "event_store \<Rightarrow> observation \<Rightarrow> error + nat \<times> event_store" where
  "load_events h observation =
     (case event_files h (events_hdu observation) of
        None \<Rightarrow> Inl FileNotFoundError
      | Some t \<Rightarrow> Inr (next_table h,
          h\<lparr>event_tables := (event_tables h)(next_table h := t),
            next_table := Suc (next_table h)\<rparr>))"

text \<open>
  The new observation: the attributes of the observation it was copied from, and the event
  list it was given, held in memory.
\<close>

record new_observation =
  copied :: observation
  event_list :: nat

text \<open>
  \<^verbatim>\<open>table = observation.events.table\<close>
  \<^verbatim>\<open>table["PHASE"] = phases.astype("float64")\<close>
  \<^verbatim>\<open>table.meta["PH_LOG"] = phase_log\<close>
  \<^verbatim>\<open>new_event_list = EventList(table)\<close>
  \<^verbatim>\<open>new_obs = observation.copy(in_memory=True, events=new_event_list)\<close>

  Both assignments write into the object \<open>table\<close> names; \<open>EventList(table)\<close> wraps that same
  object. The result is the store as the cells leave it, and the new observation or the
  exception that ended the run.
\<close>

definition add_phases ::
  "event_store \<Rightarrow> observation \<Rightarrow> float list \<Rightarrow> string
     \<Rightarrow> event_store \<times> (error + new_observation)" where
  "add_phases h observation phases phase_log =
     (case load_events h observation of
        Inl e \<Rightarrow> (h, Inl e)
      | Inr (table, h1) \<Rightarrow>
          (case table_setitem (event_tables h1 table) ''PHASE'' (astype_float64 phases) of
             Inl e \<Rightarrow> (h1, Inl e)
           | Inr t \<Rightarrow>
               (let h2 = h1\<lparr>event_tables := (event_tables h1)(table := t)\<rparr>;
                    h3 = h2\<lparr>event_tables := (event_tables h2)
                           (table := add_phase_log (event_tables h2 table) phase_log)\<rparr>;
                    new_event_list = table;
                    new_obs = \<lparr>copied = observation, event_list = new_event_list\<rparr>
                in (h3, Inr new_obs))))"

section \<open>The HDU index table and its patch\<close>

text \<open>
  A row of the index table. The loop reads and writes four columns by name; the other
  columns of the table are the extension of the record.
\<close>

record hdu_row =
  OBS_ID :: int
  HDU_NAME :: string
  FILE_DIR :: string
  FILE_NAME :: string

text \<open>
  The index table: its rows, and the widths of the two string columns the loop writes. A
  string column of an astropy table has a fixed width, in characters; no value in it is
  longer.
\<close>

record 'a hdu_index =
  rows :: "'a hdu_row_scheme list"
  dir_width :: nat
  name_width :: nat

text \<open>
  Assigning a string to an element of such a column stores what fits: the first \<open>w\<close>
  characters. No exception is raised (astropy warns).
\<close>

definition string_assign :: "nat \<Rightarrow> string \<Rightarrow> string" where
  "string_assign w val = take w val"

text \<open>
  \<^verbatim>\<open>for entry in new_hdu:\<close>
  \<^verbatim>\<open>    if (entry["HDU_NAME"] == "EVENTS") and (entry["OBS_ID"] == observation.obs_id):\<close>
  \<^verbatim>\<open>        entry["FILE_DIR"] = "./" + str(output_directory)\<close>
  \<^verbatim>\<open>        entry["FILE_NAME"] = filename\<close>
\<close>

primrec patch_rows ::
  "nat \<Rightarrow> nat \<Rightarrow> int \<Rightarrow> string \<Rightarrow> string \<Rightarrow> 'a hdu_row_scheme list
     \<Rightarrow> 'a hdu_row_scheme list" where
  "patch_rows wd wn target output_directory filename [] = []"
| "patch_rows wd wn target output_directory filename (entry # rest) =
     (if HDU_NAME entry = ''EVENTS'' \<and> OBS_ID entry = target
      then entry\<lparr>FILE_DIR := string_assign wd (''./'' @ output_directory),
                 FILE_NAME := string_assign wn filename\<rparr>
      else entry) # patch_rows wd wn target output_directory filename rest"

definition patch_index :: "int \<Rightarrow> string \<Rightarrow> string \<Rightarrow> 'a hdu_index \<Rightarrow> 'a hdu_index" where
  "patch_index target output_directory filename new_hdu =
     new_hdu\<lparr>rows := patch_rows (dir_width new_hdu) (name_width new_hdu) target
                        output_directory filename (rows new_hdu)\<rparr>"

text \<open>The positions at which two lists of rows of the same length differ.\<close>

definition changed_rows :: "'a hdu_row_scheme list \<Rightarrow> 'a hdu_row_scheme list \<Rightarrow> nat list" where
  "changed_rows t t' = filter (\<lambda>i. t ! i \<noteq> t' ! i) [0..<length t]"

text \<open>
  Table objects live in a store and are named by references, so that a copy and an alias
  differ; files map a path to the table written there.
\<close>

record 'a store =
  tables :: "nat \<rightharpoonup> 'a hdu_index"
  next_ref :: nat
  files :: "string \<rightharpoonup> 'a hdu_index"

record data_store =
  hdu_table :: nat
  base_dir :: string

text \<open>Every reference in use was handed out by the allocator.\<close>

definition store_ok :: "'a store \<Rightarrow> bool" where
  "store_ok s = (\<forall>r \<in> dom (tables s). r < next_ref s)"

text \<open>\<^verbatim>\<open>Table.copy()\<close>: a new object with the same rows.\<close>

definition table_copy :: "'a store \<Rightarrow> nat \<Rightarrow> (nat \<times> 'a store) option" where
  "table_copy s r =
     (case tables s r of
        None \<Rightarrow> None
      | Some t \<Rightarrow> Some (next_ref s,
          s\<lparr>tables := (tables s)(next_ref s \<mapsto> t), next_ref := Suc (next_ref s)\<rparr>))"

text \<open>The loop on the object behind a reference: a row assignment writes into its table.\<close>

definition patch_table :: "'a store \<Rightarrow> nat \<Rightarrow> int \<Rightarrow> string \<Rightarrow> string \<Rightarrow> 'a store option" where
  "patch_table s r target output_directory filename =
     (case tables s r of
        None \<Rightarrow> None
      | Some t \<Rightarrow>
          Some (s\<lparr>tables := (tables s)(r \<mapsto> patch_index target output_directory filename t)\<rparr>))"

text \<open>\<^verbatim>\<open>Table.write(path, format="fits", overwrite=True)\<close>\<close>

definition table_write :: "'a store \<Rightarrow> nat \<Rightarrow> string \<Rightarrow> 'a store option" where
  "table_write s r path =
     (case tables s r of
        None \<Rightarrow> None
      | Some t \<Rightarrow> Some (s\<lparr>files := (files s)(path \<mapsto> t)\<rparr>))"

text \<open>Python's format specification \<^verbatim>\<open>04d\<close>: sign-aware zero padding to four characters.\<close>

definition format_04d :: "int \<Rightarrow> string" where
  "format_04d i =
     (let digits = str_nat (nat \<bar>i\<bar>); sign = (if i < 0 then [CHR ''-''] else [])
      in sign @ replicate (4 - (length sign + length digits)) CHR ''0'' @ digits)"

text \<open>
  \<^verbatim>\<open>datastore_dir = str(data_store.hdu_table.base_dir) + "/"\<close>
  \<^verbatim>\<open>output_directory = "pulsar_events_file/"\<close>
  \<^verbatim>\<open>filename = f"dl3_pulsar_{observation.obs_id:04d}.fits.gz"\<close>
\<close>

definition datastore_dir :: "data_store \<Rightarrow> string" where
  "datastore_dir ds = base_dir ds @ ''/''"

definition output_directory :: string where
  "output_directory = ''pulsar_events_file/''"

definition filename :: "observation \<Rightarrow> string" where
  "filename observation = ''dl3_pulsar_'' @ format_04d (obs_id observation) @ ''.fits.gz''"

definition new_index_path :: "data_store \<Rightarrow> string" where
  "new_index_path ds = datastore_dir ds @ ''hdu-index-pulsar.fits.gz''"

text \<open>
  \<^verbatim>\<open>new_hdu = data_store.hdu_table.copy()\<close>, the loop on \<^verbatim>\<open>new_hdu\<close>, then
  \<^verbatim>\<open>new_hdu.write(datastore_dir + "hdu-index-pulsar.fits.gz", format="fits", overwrite=True)\<close>.
\<close>

definition write_modified_index ::
  "'a store \<Rightarrow> data_store \<Rightarrow> observation \<Rightarrow> 'a store option" where
  "write_modified_index s ds observation =
     (case table_copy s (hdu_table ds) of
        None \<Rightarrow> None
      | Some (new_hdu, s1) \<Rightarrow>
          (case patch_table s1 new_hdu (obs_id observation) output_directory
                  (filename observation) of
             None \<Rightarrow> None
           | Some s2 \<Rightarrow> table_write s2 new_hdu (new_index_path ds)))"

section \<open>Properties of rounding\<close>

lemma rne_lower: "\<lfloor>q\<rfloor> \<le> rne q"
  by (simp add: rne_def Let_def)

lemma rne_upper: "rne q \<le> \<lceil>q\<rceil>"
proof -
  have "q - of_int \<lfloor>q\<rfloor> < 1 / 2 \<Longrightarrow> \<lfloor>q\<rfloor> \<le> \<lceil>q\<rceil>"
    by (simp add: floor_le_ceiling)
  moreover have "\<not> q - of_int \<lfloor>q\<rfloor> < 1 / 2 \<Longrightarrow> \<lfloor>q\<rfloor> + 1 \<le> \<lceil>q\<rceil>"
    by (auto simp add: ceiling_altdef)
  ultimately show ?thesis
    using floor_le_ceiling[of q] by (auto simp add: rne_def Let_def)
qed


lemma ilog2_lower:
  assumes "0 < q"
  shows "2 powi (ilog2 q) \<le> q"
proof (cases "1 \<le> q")
  case True
  then have n: "0 < \<lfloor>q\<rfloor>" by simp
  then have b: "1 \<le> bitlen \<lfloor>q\<rfloor>"
    using bitlen_eq_zero_iff[of "\<lfloor>q\<rfloor>"] bitlen_nonneg[of "\<lfloor>q\<rfloor>"] by linarith
  have "(2::int) ^ nat (bitlen \<lfloor>q\<rfloor> - 1) \<le> \<lfloor>q\<rfloor>"
    using bitlen_bounds[OF n] by simp
  then have "(of_int ((2::int) ^ nat (bitlen \<lfloor>q\<rfloor> - 1)) :: rat) \<le> of_int \<lfloor>q\<rfloor>"
    by (simp only: of_int_le_iff)
  then have "(2::rat) ^ nat (bitlen \<lfloor>q\<rfloor> - 1) \<le> q"
    by (simp add: le_floor_iff)
  then show ?thesis using True b by (simp add: ilog2_def power_int_def)
next
  case False
  then have q1: "q < 1" by simp
  let ?N = "\<lceil>1 / q\<rceil>"
  have "1 < 1 / q" using assms q1 by (simp add: field_simps)
  then have N2: "2 \<le> ?N" by (simp add: le_ceiling_iff)
  then have n: "0 < ?N - 1" by simp
  have "?N - 1 < 2 ^ nat (bitlen (?N - 1))"
    using bitlen_bounds[OF n] by simp
  then have "?N \<le> 2 ^ nat (bitlen (?N - 1))" by simp
  then have "(of_int ?N :: rat) \<le> of_int (2 ^ nat (bitlen (?N - 1)))"
    by (simp only: of_int_le_iff)
  then have "(of_int ?N :: rat) \<le> 2 ^ nat (bitlen (?N - 1))" by simp
  moreover have "1 / q \<le> of_int ?N" by (rule le_of_int_ceiling)
  ultimately have "1 / q \<le> 2 ^ nat (bitlen (?N - 1))" by (rule order_trans[rotated])
  then have "1 / 2 ^ nat (bitlen (?N - 1)) \<le> q" using assms by (simp add: field_simps)
  moreover have "(2::rat) powi (- bitlen (?N - 1)) = 1 / 2 ^ nat (bitlen (?N - 1))"
    using bitlen_nonneg[of "?N - 1"] by (simp add: power_int_minus_divide power_int_nonneg_exp)
  ultimately show ?thesis using False by (simp add: ilog2_def)
qed

text \<open>The exponent is the only one with these bounds.\<close>

lemma ilog2_upper:
  assumes "0 < q"
  shows "q < 2 powi (ilog2 q + 1)"
proof (cases "1 \<le> q")
  case True
  then have n: "0 < \<lfloor>q\<rfloor>" by simp
  have b0: "0 \<le> bitlen \<lfloor>q\<rfloor>" by (rule bitlen_nonneg)
  have "\<lfloor>q\<rfloor> < 2 ^ nat (bitlen \<lfloor>q\<rfloor>)" using bitlen_bounds[OF n] by simp
  then have "\<lfloor>q\<rfloor> + 1 \<le> 2 ^ nat (bitlen \<lfloor>q\<rfloor>)" by simp
  then have "(of_int (\<lfloor>q\<rfloor> + 1) :: rat) \<le> of_int (2 ^ nat (bitlen \<lfloor>q\<rfloor>))"
    by (simp only: of_int_le_iff)
  then have "(of_int \<lfloor>q\<rfloor> + 1 :: rat) \<le> 2 ^ nat (bitlen \<lfloor>q\<rfloor>)" by simp
  moreover have "q < of_int \<lfloor>q\<rfloor> + 1" by linarith
  ultimately have "q < 2 ^ nat (bitlen \<lfloor>q\<rfloor>)" by linarith
  then show ?thesis using True b0 by (simp add: ilog2_def power_int_nonneg_exp)
next
  case False
  then have q1: "q < 1" by simp
  let ?N = "\<lceil>1 / q\<rceil>"
  let ?k = "bitlen (?N - 1)"
  have "1 < 1 / q" using assms q1 by (simp add: field_simps)
  then have N2: "2 \<le> ?N" by (simp add: le_ceiling_iff)
  then have n: "0 < ?N - 1" by simp
  then have k1: "1 \<le> ?k"
    using bitlen_eq_zero_iff[of "?N - 1"] bitlen_nonneg[of "?N - 1"] by linarith
  have "2 ^ nat (?k - 1) \<le> ?N - 1" using bitlen_bounds[OF n] by simp
  then have "(of_int (2 ^ nat (?k - 1)) :: rat) \<le> of_int (?N - 1)"
    by (simp only: of_int_le_iff)
  then have "(2 :: rat) ^ nat (?k - 1) \<le> of_int ?N - 1" by simp
  moreover have "of_int ?N - 1 < 1 / q" by linarith
  ultimately have lt: "(2 :: rat) ^ nat (?k - 1) < 1 / q" by linarith
  have "q * 2 ^ nat (?k - 1) < 1"
    using lt assms by (simp add: field_simps)
  then have "q < 1 / 2 ^ nat (?k - 1)" by (simp add: field_simps)
  moreover have "(2::rat) powi (- ?k + 1) = 1 / 2 ^ nat (?k - 1)"
  proof -
    have "- ?k + 1 = - (?k - 1)" by simp
    then have "(2::rat) powi (- ?k + 1) = 1 / 2 powi (?k - 1)"
      by (simp only: power_int_minus_divide)
    also have "\<dots> = 1 / 2 ^ nat (?k - 1)" using k1 by (simp add: power_int_nonneg_exp)
    finally show ?thesis .
  qed
  ultimately show ?thesis using False by (simp add: ilog2_def)
qed

lemma powi2_less_imp:
  assumes "(2::rat) powi a < 2 powi b"
  shows "a < b"
proof (rule ccontr)
  assume "\<not> a < b"
  then have "b \<le> a" by simp
  then have "(2::rat) powi b \<le> 2 powi a" by (intro power_int_increasing) simp_all
  with assms show False by simp
qed

lemma ilog2_unique:
  assumes "2 powi e \<le> q" "q < 2 powi (e + 1)"
  shows "ilog2 q = e"
proof -
  have "(0::rat) < 2 powi e" by simp
  then have q: "0 < q" using assms(1) by linarith
  have "2 powi e < (2::rat) powi (ilog2 q + 1)"
    using assms(1) ilog2_upper[OF q] by linarith
  then have a: "e < ilog2 q + 1" by (rule powi2_less_imp)
  have "(2::rat) powi (ilog2 q) < 2 powi (e + 1)"
    using assms(2) ilog2_lower[OF q] by linarith
  then have b: "ilog2 q < e + 1" by (rule powi2_less_imp)
  from a b show ?thesis by simp
qed


lemma rne_of_int: "rne (of_int n) = n"
  by (simp add: rne_def)

lemma rne_abs_error: "\<bar>of_int (rne q) - q\<bar> \<le> 1 / 2"
proof -
  have f: "0 \<le> q - of_int \<lfloor>q\<rfloor>" "q - of_int \<lfloor>q\<rfloor> < 1" by linarith+
  consider "q - of_int \<lfloor>q\<rfloor> < 1 / 2" | "1 / 2 < q - of_int \<lfloor>q\<rfloor>"
    | "q - of_int \<lfloor>q\<rfloor> = 1 / 2" by linarith
  then show ?thesis
  proof cases
    case 1
    then have "rne q = \<lfloor>q\<rfloor>" by (simp add: rne_def Let_def)
    then show ?thesis using f 1 by linarith
  next
    case 2
    then have "rne q = \<lfloor>q\<rfloor> + 1" by (simp add: rne_def Let_def)
    then have "of_int (rne q) = (of_int \<lfloor>q\<rfloor> + 1 :: rat)" by simp
    then show ?thesis using f 2 by linarith
  next
    case 3
    then have "rne q = \<lfloor>q\<rfloor> \<or> rne q = \<lfloor>q\<rfloor> + 1" by (simp add: rne_def Let_def)
    then have "of_int (rne q) = (of_int \<lfloor>q\<rfloor> :: rat) \<or> of_int (rne q) = (of_int \<lfloor>q\<rfloor> + 1 :: rat)"
      by auto
    then show ?thesis using f 3 by (elim disjE) linarith+
  qed
qed

text \<open>The rounded value is within half a unit in the last place of the exact one.\<close>

lemma fround_error:
  "\<bar>fround p r - r\<bar> \<le> 2 powi (ilog2 \<bar>r\<bar> - int p + 1) / 2"
proof (cases "r = 0")
  case True
  then show ?thesis by (simp add: fround_def)
next
  case False
  let ?u = "(2::rat) powi (ilog2 \<bar>r\<bar> - int p + 1)"
  have u: "0 < ?u" by simp
  have "fround p r - r = (of_int (rne (r / ?u)) - r / ?u) * ?u"
    using False u by (simp add: fround_def Let_def field_simps)
  then have "\<bar>fround p r - r\<bar> = \<bar>of_int (rne (r / ?u)) - r / ?u\<bar> * ?u"
    using u by (simp add: abs_mult)
  also have "\<dots> \<le> 1 / 2 * ?u"
    using rne_abs_error[of "r / ?u"] u by (intro mult_right_mono) simp_all
  finally show ?thesis by simp
qed

text \<open>Rounding is idempotent: its results are values of the format.\<close>

lemma fround_at:
  "r \<noteq> 0 \<Longrightarrow> ilog2 \<bar>r\<bar> = e \<Longrightarrow>
   fround p r = of_int (rne (r / 2 powi (e - int p + 1))) * 2 powi (e - int p + 1)"
  by (simp add: fround_def Let_def)

lemma fround_repr:
  assumes "0 < p"
  shows "float_repr p (fround p r)"
proof (cases "r = 0")
  case True
  then show ?thesis by (simp add: float_repr_def fround_def)
next
  case False
  define e where "e = ilog2 \<bar>r\<bar>"
  define u where "u = (2::rat) powi (e - int p + 1)"
  define n where "n = rne (r / u)"
  have u: "0 < u" by (simp add: u_def)
  have a: "0 < \<bar>r\<bar>" using False by simp
  have y: "fround p r = of_int n * u"
    using False by (simp add: fround_def Let_def n_def u_def e_def)
  have pw: "(2::rat) powi e = 2 ^ (p - 1) * u"
  proof -
    have "e = int (p - 1) + (e - int p + 1)" using assms by simp
    then have "(2::rat) powi e = 2 powi (int (p - 1) + (e - int p + 1))" by simp
    also have "\<dots> = 2 powi int (p - 1) * 2 powi (e - int p + 1)"
      by (subst power_int_add) simp_all
    finally show ?thesis by (simp add: u_def)
  qed
  have pw1: "(2::rat) powi (e + 1) = 2 ^ p * u"
  proof -
    have "e + 1 = int p + (e - int p + 1)" by simp
    then have "(2::rat) powi (e + 1) = 2 powi (int p + (e - int p + 1))" by simp
    also have "\<dots> = 2 powi int p * 2 powi (e - int p + 1)"
      by (subst power_int_add) simp_all
    finally show ?thesis by (simp add: u_def)
  qed
  have pw2: "(2::rat) powi (e + 1 - int p + 1) = 2 * u"
  proof -
    have "e + 1 - int p + 1 = 1 + (e - int p + 1)" by simp
    then have "(2::rat) powi (e + 1 - int p + 1) = 2 powi (1 + (e - int p + 1))" by simp
    also have "\<dots> = 2 powi 1 * 2 powi (e - int p + 1)"
      by (subst power_int_add) simp_all
    finally show ?thesis by (simp add: u_def)
  qed
  have "2 ^ (p - 1) * u \<le> \<bar>r\<bar>" using ilog2_lower[OF a] by (simp only: pw e_def[symmetric])
  then have lo: "2 ^ (p - 1) \<le> \<bar>r\<bar> / u" using u by (simp add: field_simps)
  have "\<bar>r\<bar> < 2 ^ p * u" using ilog2_upper[OF a] by (simp only: pw1 e_def[symmetric])
  then have hi: "\<bar>r\<bar> / u < 2 ^ p" using u by (simp add: field_simps)
  have nlo: "2 ^ (p - 1) \<le> \<bar>n\<bar>"
  proof (cases "0 \<le> r")
    case True
    then have "(of_int (2 ^ (p - 1)) :: rat) \<le> r / u" using lo by simp
    then have "2 ^ (p - 1) \<le> \<lfloor>r / u\<rfloor>" by (simp only: le_floor_iff)
    then show ?thesis using rne_lower[of "r / u"] unfolding n_def by linarith
  next
    case False
    then have "r / u \<le> of_int (- (2 ^ (p - 1)))" using lo by simp
    then have "\<lceil>r / u\<rceil> \<le> - (2 ^ (p - 1))" by (simp only: ceiling_le_iff)
    then show ?thesis using rne_upper[of "r / u"] unfolding n_def by linarith
  qed
  have nhi: "\<bar>n\<bar> \<le> 2 ^ p"
  proof (cases "0 \<le> r")
    case True
    then have "r / u \<le> of_int (2 ^ p)" using hi by simp
    then have "\<lceil>r / u\<rceil> \<le> 2 ^ p" by (simp only: ceiling_le_iff)
    moreover have "0 \<le> \<lfloor>r / u\<rfloor>" using True u by simp
    ultimately show ?thesis
      using rne_upper[of "r / u"] rne_lower[of "r / u"] unfolding n_def by linarith
  next
    case False
    then have "of_int (- (2 ^ p)) \<le> r / u" using hi by simp
    then have "- (2 ^ p) \<le> \<lfloor>r / u\<rfloor>" by (simp only: le_floor_iff)
    moreover have "r / u \<le> of_int 0" using False u by (simp add: divide_nonpos_pos)
    then have "\<lceil>r / u\<rceil> \<le> 0" by (simp only: ceiling_le_iff)
    ultimately show ?thesis
      using rne_upper[of "r / u"] rne_lower[of "r / u"] unfolding n_def by linarith
  qed
  have "(0::int) < 2 ^ (p - 1)" by simp
  with nlo have n0: "n \<noteq> 0" by linarith
  have ay: "\<bar>fround p r\<bar> = of_int \<bar>n\<bar> * u" using u by (simp add: y abs_mult)
  have y0: "fround p r \<noteq> 0" using n0 u by (simp add: y)
  show ?thesis
  proof (cases "\<bar>n\<bar> = 2 ^ p")
    case True
    have "\<bar>fround p r\<bar> = 2 powi (e + 1)" by (simp add: ay True pw1)
    moreover have "(2::rat) powi (e + 1) < 2 powi (e + 1 + 1)"
      by (intro power_int_strict_increasing) simp_all
    ultimately have e': "ilog2 \<bar>fround p r\<bar> = e + 1"
      by (intro ilog2_unique) simp_all
    have "even ((2::int) ^ p)" using assms by simp
    then have "even \<bar>n\<bar>" by (simp only: True)
    then have "even n" by simp
    then obtain m where m: "n = 2 * m" by (elim evenE)
    have "fround p r / (2 * u) = of_int m" using u by (simp add: y m)
    then have "rne (fround p r / (2 * u)) = m" by (simp only: rne_of_int)
    then have "of_int (rne (fround p r / (2 * u))) * (2 * u) = fround p r"
      using u by (simp add: y m)
    then have "fround p (fround p r) = fround p r"
      using fround_at[OF y0 e', of p] by (simp only: pw2)
    then show ?thesis by (simp add: float_repr_def)
  next
    case False
    with nhi have lt: "\<bar>n\<bar> < 2 ^ p" by simp
    have "2 powi e \<le> \<bar>fround p r\<bar>"
    proof -
      have "(of_int (2 ^ (p - 1)) :: rat) \<le> of_int \<bar>n\<bar>" using nlo by (simp only: of_int_le_iff)
      then have "of_int (2 ^ (p - 1)) * u \<le> of_int \<bar>n\<bar> * u"
        using u by (intro mult_right_mono) simp_all
      then show ?thesis by (simp add: ay pw)
    qed
    moreover have "\<bar>fround p r\<bar> < 2 powi (e + 1)"
    proof -
      have "(of_int \<bar>n\<bar> :: rat) < of_int (2 ^ p)" using lt by (simp only: of_int_less_iff)
      then have "of_int \<bar>n\<bar> * u < of_int (2 ^ p) * u"
        using u by (intro mult_strict_right_mono) simp_all
      then show ?thesis by (simp add: ay pw1)
    qed
    ultimately have e': "ilog2 \<bar>fround p r\<bar> = e" by (rule ilog2_unique)
    have "fround p r / u = of_int n" using u by (simp add: y)
    then have "rne (fround p r / u) = n" by (simp only: rne_of_int)
    then have "of_int (rne (fround p r / u)) * u = fround p r" by (simp add: y)
    then have "fround p (fround p r) = fround p r"
      using fround_at[OF y0 e', of p] by (simp only: u_def[symmetric])
    then show ?thesis by (simp add: float_repr_def)
  qed
qed



text \<open>Rounding a negative number gives a negative number, with at least one bit.\<close>

lemma fround_neg:
  assumes "0 < p" "r < 0"
  shows "fround p r < 0"
proof -
  let ?u = "(2::rat) powi (ilog2 \<bar>r\<bar> - int p + 1)"
  have upos: "0 < ?u" by simp
  have a: "0 < \<bar>r\<bar>" using assms by simp
  have "ilog2 \<bar>r\<bar> - int p + 1 \<le> ilog2 \<bar>r\<bar>" using assms by simp
  then have "?u \<le> 2 powi (ilog2 \<bar>r\<bar>)" by (intro power_int_increasing) simp_all
  also have "\<dots> \<le> \<bar>r\<bar>" by (rule ilog2_lower[OF a])
  finally have "?u \<le> - r" using assms by simp
  then have "r / ?u \<le> - 1" using upos by (simp add: field_simps)
  then have "r / ?u \<le> of_int (- 1)" by simp
  then have "\<lceil>r / ?u\<rceil> \<le> - 1" by (simp only: ceiling_le_iff)
  then have "rne (r / ?u) < 0" using rne_upper[of "r / ?u"] by linarith
  then have "(of_int (rne (r / ?u)) :: rat) < 0" by simp
  then have "of_int (rne (r / ?u)) * ?u < 0" using upos by (simp add: mult_less_0_iff)
  then show ?thesis using assms by (simp add: fround_def Let_def)
qed


text \<open>
  The rounding agrees with numpy on known \<open>float64\<close> values: the literal \<open>0.1\<close>, the sum
  \<open>0.1 + 0.2\<close>, two ties next to \<open>1.0\<close> and the quotient \<open>1/3\<close>.
\<close>

lemma float64_known_values:
  "fround float64 (1 / 10) = 3602879701896397 / 36028797018963968"
  "fadd float64 (fround float64 (1 / 10)) (fround float64 (2 / 10))
     = 1351079888211149 / 4503599627370496"
  "fadd float64 1 (1 / 2 ^ 53) = 1"
  "fadd float64 1 (3 / 2 ^ 53) = 1 + 1 / 2 ^ 51"
  "fround float64 (1 / 3) = 6004799503160661 / 18014398509481984"
  by code_simp+

section \<open>The phase wrap\<close>

lemma shift_phases_map:
  "shift_phases p phases = map (\<lambda>x. if x < 0 then fadd p x 1 else x) phases"
  by (induction phases) (simp_all add: shift_phases_def np_where_def)


lemma shift_phases_nth:
  "i < length phases \<Longrightarrow>
   shift_phases p phases ! i = (if phases ! i < 0 then fadd p (phases ! i) 1 else phases ! i)"
  by (simp add: shift_phases_map)

text \<open>
  Claim C5: for the input phases \<open>-0.3, 0.1, 0.6\<close> (the \<open>float64\<close> values of these
  literals) the wrap produces exactly \<open>0.7, 0.1, 0.6\<close> (the \<open>float64\<close> values of those
  literals): the sum \<open>-0.3 + 1.0\<close> rounds to the \<open>float64\<close> value of \<open>0.7\<close>.
\<close>

theorem wrap_example:
  "shift_phases float64 [fround float64 (- (3 / 10)), fround float64 (1 / 10), fround float64 (6 / 10)]
     = [fround float64 (7 / 10), fround float64 (1 / 10), fround float64 (6 / 10)]"
  by code_simp

text \<open>The values behind two of these literals.\<close>

lemma float64_literals:
  "fround float64 (- (3 / 10)) = - (5404319552844595 / 18014398509481984)"
  "fround float64 (7 / 10) = 3152519739159347 / 4503599627370496"
  by code_simp+





text \<open>
  Claim C6: the wrap corrects a single cycle only. For every input phase \<open>x < -1.0\<close> the
  output is the sum \<open>x + 1.0\<close>, which is still negative and therefore not in \<open>[0, 1)\<close>.
  This holds at every precision of at least one bit.
\<close>

theorem wrap_single_cycle:
  assumes "0 < p" "i < length phases" "phases ! i < - 1"
  shows "shift_phases p phases ! i = fadd p (phases ! i) 1 \<and>
         shift_phases p phases ! i < 0 \<and>
         \<not> in_unit_ho (shift_phases p phases ! i)"
proof -
  have neg: "phases ! i < 0" using assms(3) by simp
  have eq: "shift_phases p phases ! i = fadd p (phases ! i) 1"
    using neg by (simp add: shift_phases_nth[OF assms(2)])
  have "phases ! i + 1 < 0" using assms(3) by simp
  from fround_neg[OF assms(1) this] have "fadd p (phases ! i) 1 < 0" by (simp add: fadd_def)
  with eq show ?thesis by (simp add: in_unit_ho_def)
qed

theorem wrap_single_cycle_witness:
  "0 < float64 \<and> 0 < length [- (3 / 2) :: rat] \<and> [- (3 / 2) :: rat] ! 0 < - 1 \<and>
   shift_phases float64 [- (3 / 2)] ! 0 = - (1 / 2) \<and>
   \<not> in_unit_ho (shift_phases float64 [- (3 / 2)] ! 0)"
proof -
  have h1: "0 < float64" by (simp add: float64_def)
  have h2: "0 < length [- (3 / 2) :: rat]" by simp
  have h3: "[- (3 / 2) :: rat] ! 0 < - 1" by simp
  have v: "fadd float64 ([- (3 / 2) :: rat] ! 0) 1 = - (1 / 2)" by code_simp
  from wrap_single_cycle[OF h1 h2 h3] v h1 h2 h3 show ?thesis by (simp add: in_unit_ho_def)
qed

section \<open>Conversion to \<open>float64\<close>\<close>

text \<open>In the normal range of \<open>float64\<close> the conversion is the rounding to 53 bits.\<close>

lemma to_float64_normal:
  assumes "2 powi (- 1022) \<le> \<bar>r\<bar>" "\<bar>fround float64 r\<bar> < 2 ^ 1024"
  shows "to_float64 r = Finite (fround float64 r)"
proof -
  have "(0::rat) < 2 powi (- 1022)" by simp
  then have a: "0 < \<bar>r\<bar>" using assms(1) by linarith
  then have r0: "r \<noteq> 0" by simp
  have "(2::rat) powi (- 1022) < 2 powi (ilog2 \<bar>r\<bar> + 1)"
    using assms(1) ilog2_upper[OF a] by linarith
  then have "- 1022 < ilog2 \<bar>r\<bar> + 1" by (rule powi2_less_imp)
  then have m: "max (ilog2 \<bar>r\<bar>) (- 1022) = ilog2 \<bar>r\<bar>" by simp
  have e: "ilog2 \<bar>r\<bar> - 52 = ilog2 \<bar>r\<bar> - int 53 + 1" by simp
  define y where "y = fround float64 r"
  have y: "of_int (rne (r / 2 powi (ilog2 \<bar>r\<bar> - 52))) * 2 powi (ilog2 \<bar>r\<bar> - 52) = y"
    unfolding y_def fround_def float64_def e by (simp add: r0 Let_def)
  have b: "\<not> 2 ^ 1024 \<le> y" "\<not> y \<le> - (2 ^ 1024)"
    using assms(2) unfolding y_def[symmetric] by linarith+
  show ?thesis
    unfolding to_float64_def m y_def[symmetric] using r0 b by (simp add: Let_def y)
qed

lemma powi2_numeral: "(2::rat) powi (int n) = 2 ^ n"
  by (simp only: power_int_of_nat)

text \<open>A value of \<open>2^1024\<close> or more overflows to infinity, and so on the negative side.\<close>

lemma to_float64_overflow:
  assumes "2 ^ 1024 \<le> r"
  shows "to_float64 r = PosInf"
proof -
  define M :: rat where "M = 2 ^ 1024"
  have Mpos: "0 < M" by (simp add: M_def)
  have M: "M = 2 powi 1024"
    using powi2_numeral[of 1024] by (simp only: M_def) simp
  have rM: "M \<le> r" using assms by (simp only: M_def)
  have r0: "0 < r" using rM Mpos by linarith
  then have ar: "\<bar>r\<bar> = r" by simp
  define e where "e = ilog2 r"
  have lo: "2 powi e \<le> r" unfolding e_def by (rule ilog2_lower[OF r0])
  have up: "r < 2 powi (e + 1)" unfolding e_def by (rule ilog2_upper[OF r0])
  have "(2::rat) powi 1024 < 2 powi (e + 1)" using rM up unfolding M by linarith
  then have "1024 < e + 1" by (rule powi2_less_imp)
  then have e: "1024 \<le> e" by simp
  then have m: "max e (- 1022) = e" by simp
  define u :: rat where "u = 2 powi (e - 52)"
  have upos: "0 < u" by (simp add: u_def)
  have ue: "2 ^ 52 * u = 2 powi e"
  proof -
    have "(2::rat) powi e = 2 powi (52 + (e - 52))" by simp
    also have "\<dots> = 2 powi 52 * 2 powi (e - 52)"
      by (subst power_int_add) simp_all
    also have "(2::rat) powi 52 = 2 ^ 52" using powi2_numeral[of 52] by simp
    finally show ?thesis by (simp add: u_def)
  qed
  have "2 ^ 52 * u \<le> r" using lo by (simp only: ue)
  then have "of_int (2 ^ 52) \<le> r / u" using upos by (simp add: field_simps)
  then have "2 ^ 52 \<le> \<lfloor>r / u\<rfloor>" by (simp only: le_floor_iff)
  then have "2 ^ 52 \<le> rne (r / u)" using rne_lower[of "r / u"] by linarith
  then have "(of_int (2 ^ 52) :: rat) \<le> of_int (rne (r / u))" by (simp only: of_int_le_iff)
  then have "of_int (2 ^ 52) * u \<le> of_int (rne (r / u)) * u"
    using upos by (intro mult_right_mono) simp_all
  then have "2 powi e \<le> of_int (rne (r / u)) * u" using ue by simp
  moreover have "(2::rat) powi 1024 \<le> 2 powi e"
    using e by (intro power_int_increasing) simp_all
  ultimately have y: "M \<le> of_int (rne (r / u)) * u" unfolding M by linarith
  have rn: "r \<noteq> 0" using r0 by simp
  show ?thesis
    unfolding to_float64_def ar e_def[symmetric] m u_def[symmetric] M_def[symmetric] Let_def
    using rn y by simp
qed

lemma to_float64_overflow_neg:
  assumes "r \<le> - (2 ^ 1024)"
  shows "to_float64 r = NegInf"
proof -
  define M :: rat where "M = 2 ^ 1024"
  have Mpos: "0 < M" by (simp add: M_def)
  have M: "M = 2 powi 1024"
    using powi2_numeral[of 1024] by (simp only: M_def) simp
  have rM: "r \<le> - M" using assms by (simp only: M_def)
  have r0: "r < 0" using rM Mpos by linarith
  then have ar: "\<bar>r\<bar> = - r" by simp
  have p0: "0 < - r" using r0 by simp
  define e where "e = ilog2 (- r)"
  have lo: "2 powi e \<le> - r" unfolding e_def by (rule ilog2_lower[OF p0])
  have up: "- r < 2 powi (e + 1)" unfolding e_def by (rule ilog2_upper[OF p0])
  have "(2::rat) powi 1024 < 2 powi (e + 1)" using rM up unfolding M by linarith
  then have "1024 < e + 1" by (rule powi2_less_imp)
  then have e: "1024 \<le> e" by simp
  then have m: "max e (- 1022) = e" by simp
  define u :: rat where "u = 2 powi (e - 52)"
  have upos: "0 < u" by (simp add: u_def)
  have ue: "2 ^ 52 * u = 2 powi e"
  proof -
    have "(2::rat) powi e = 2 powi (52 + (e - 52))" by simp
    also have "\<dots> = 2 powi 52 * 2 powi (e - 52)"
      by (subst power_int_add) simp_all
    also have "(2::rat) powi 52 = 2 ^ 52" using powi2_numeral[of 52] by simp
    finally show ?thesis by (simp add: u_def)
  qed
  have "2 ^ 52 * u \<le> - r" using lo by (simp only: ue)
  then have "r / u \<le> of_int (- (2 ^ 52))" using upos by (simp add: field_simps)
  then have "\<lceil>r / u\<rceil> \<le> - (2 ^ 52)" by (simp only: ceiling_le_iff)
  then have "rne (r / u) \<le> - (2 ^ 52)" using rne_upper[of "r / u"] by linarith
  then have "(of_int (rne (r / u)) :: rat) \<le> of_int (- (2 ^ 52))" by (simp only: of_int_le_iff)
  then have "of_int (rne (r / u)) * u \<le> of_int (- (2 ^ 52)) * u"
    using upos by (intro mult_right_mono) simp_all
  then have "of_int (rne (r / u)) * u \<le> - (2 powi e)" using ue by simp
  moreover have "(2::rat) powi 1024 \<le> 2 powi e"
    using e by (intro power_int_increasing) simp_all
  ultimately have y: "of_int (rne (r / u)) * u \<le> - M" unfolding M by linarith
  then have y': "\<not> M \<le> of_int (rne (r / u)) * u" using Mpos by linarith
  have rn: "r \<noteq> 0" using r0 by simp
  show ?thesis
    unfolding to_float64_def ar e_def[symmetric] m u_def[symmetric] M_def[symmetric] Let_def
    using rn y y' by simp
qed


text \<open>
  Below the normal range the result is a multiple of \<open>2^-1074\<close>: the nearest one, zero
  included.
\<close>

lemma to_float64_underflow:
  assumes "r \<noteq> 0" "\<bar>r\<bar> < 2 powi (- 1022)"
  shows "to_float64 r = Finite (of_int (rne (r * 2 ^ 1074)) / 2 ^ 1074)"
proof -
  define M :: rat where "M = 2 ^ 1024"
  have M1: "1 \<le> M" unfolding M_def by (rule one_le_power) simp
  define U :: rat where "U = 2 ^ 1074"
  have Upos: "0 < U" by (simp add: U_def)
  have a: "0 < \<bar>r\<bar>" using assms(1) by simp
  define e where "e = ilog2 \<bar>r\<bar>"
  have "(2::rat) powi e \<le> \<bar>r\<bar>" unfolding e_def by (rule ilog2_lower[OF a])
  then have "(2::rat) powi e < 2 powi (- 1022)" using assms(2) by linarith
  then have "e < - 1022" by (rule powi2_less_imp)
  then have m: "max e (- 1022) - 52 = - 1074" by simp
  have u: "(2::rat) powi (- 1074) = 1 / U"
  proof -
    have "(2::rat) powi (- int 1074) = inverse (2 powi (int 1074))"
      by (rule power_int_minus)
    also have "\<dots> = inverse (2 ^ 1074)" by (simp only: powi2_numeral)
    finally show ?thesis by (simp add: U_def inverse_eq_divide)
  qed
  have q: "r / (1 / U) = r * U" by simp
  define n where "n = rne (r * U)"
  have "\<bar>of_int n - r * U\<bar> \<le> 1 / 2" unfolding n_def by (rule rne_abs_error)
  moreover have "\<bar>r * U\<bar> < 2 powi (- 1022) * U"
    using assms(2) Upos by (simp add: abs_mult)
  moreover have "(2::rat) powi (- 1022) * U = 2 ^ 52"
  proof -
    have "(2::rat) powi (- int 1022) = inverse (2 powi (int 1022))"
      by (rule power_int_minus)
    also have "\<dots> = inverse (2 ^ 1022)" by (simp only: powi2_numeral)
    finally have "(2::rat) powi (- 1022) = inverse (2 ^ 1022)" by simp
    moreover have "U = 2 ^ 1022 * 2 ^ 52" unfolding U_def
      by (simp only: power_add[symmetric]) simp
    ultimately show ?thesis by simp
  qed
  ultimately have nb: "\<bar>of_int n :: rat\<bar> < 2 ^ 52 + 1" by linarith
  have "(2::rat) ^ 52 + 1 \<le> U"
  proof -
    have "(2::rat) ^ 52 + 1 \<le> 2 ^ 53" by simp
    also have "\<dots> \<le> 2 ^ 1074" by (rule power_increasing) simp_all
    finally show ?thesis by (simp only: U_def)
  qed
  then have "\<bar>of_int n :: rat\<bar> < U" using nb by linarith
  then have "\<bar>of_int n * (1 / U)\<bar> < 1" using Upos by (simp add: abs_mult field_simps)
  then have y: "\<not> M \<le> of_int n * (1 / U)" "\<not> of_int n * (1 / U) \<le> - M"
    using M1 by linarith+
  show ?thesis
    unfolding to_float64_def e_def[symmetric] m u q Let_def M_def[symmetric]
      U_def[symmetric] n_def[symmetric]
    using assms(1) y by simp
qed

section \<open>The time-window check\<close>

lemma check_time_set:
  assumes "START (model g) = Some start" "FINISH (model g) = Some finish"
  shows "check_time g observation timing_model =
     Inr (if f64_less (Finite (tstart observation)) (to_float64 start) \<or>
             f64_less (to_float64 finish) (Finite (tstop observation))
          then g\<lparr>logged := logged g @ [(WARNING, warning_message observation)]\<rparr>
          else g)"
  using assms by (simp add: check_time_def Let_def)

lemma check_time_unset:
  assumes "START (model g) = None \<or> FINISH (model g) = None"
  shows "check_time g observation timing_model = Inl ValueError"
  using assms by (auto simp add: check_time_def split: option.splits)

text \<open>
  Claim C4 as stated fails in its second part: \<open>check_time\<close> raises when the timing model
  has no validity window. Here \<open>START\<close> and \<open>FINISH\<close> are unset, the model is passed as the
  argument as the notebook does, and the call ends in \<open>ValueError\<close>; so does the run of the
  cells.
\<close>

theorem check_time_raises_unset:
  "check_time \<lparr>model = \<lparr>START = None, FINISH = None\<rparr>, logged = []\<rparr>
     \<lparr>obs_id = 5029747, tstart = 55555, tstop = 55556, event_time = [],
       events_hdu = ''dl3/run.fits''\<rparr>
     \<lparr>START = None, FINISH = None\<rparr> = Inl ValueError \<and>
   check_time \<lparr>model = \<lparr>START = Some 55000, FINISH = None\<rparr>, logged = []\<rparr>
     \<lparr>obs_id = 5029747, tstart = 55555, tstop = 55556, event_time = [],
       events_hdu = ''dl3/run.fits''\<rparr>
     \<lparr>START = Some 55000, FINISH = None\<rparr> = Inl ValueError \<and>
   compute_phases float64 (\<lambda>m ts. ts) \<lparr>model = \<lparr>START = None, FINISH = None\<rparr>, logged = []\<rparr>
     \<lparr>obs_id = 5029747, tstart = 55555, tstop = 55556, event_time = [],
       events_hdu = ''dl3/run.fits''\<rparr> = Inl ValueError"
  by (simp add: check_time_def compute_phases_def)

text \<open>
  Claim C4, amended, for the call the notebook makes, with the module-level \<open>model\<close> as the
  timing model passed. If both ends of the validity window of the model are set,
  \<open>check_time\<close> logs a warning if and only if the observation's start time is earlier than
  the start of the window or its stop time is later than the end of the window, the window
  taken as the \<open>float64\<close> numbers the \<open>Time\<close> array gives back; it raises nothing and
  changes nothing but the log, and the cells that follow compute the wrapped phases whether
  or not the warning was logged. If an end of the window is unset, the call raises
  \<open>ValueError\<close> and the run ends there.
\<close>

theorem check_time_warns_iff:
  "(START (model g) = Some start \<and> FINISH (model g) = Some finish \<longrightarrow>
      (\<exists>g'. check_time g observation (model g) = Inr g' \<and>
         logged g' =
           (if f64_less (Finite (tstart observation)) (to_float64 start) \<or>
             f64_less (to_float64 finish) (Finite (tstop observation))
            then logged g @ [(WARNING, warning_message observation)]
            else logged g) \<and>
         (logged g' \<noteq> logged g) =
           (f64_less (Finite (tstart observation)) (to_float64 start) \<or>
             f64_less (to_float64 finish) (Finite (tstop observation))) \<and>
         model g' = model g \<and>
         compute_phases p phase g observation =
           Inr (g', shift_phases p (phase (model g) (event_time observation))))) \<and>
   (START (model g) = None \<or> FINISH (model g) = None \<longrightarrow>
      check_time g observation (model g) = Inl ValueError \<and>
      compute_phases p phase g observation = Inl ValueError)"
proof (intro conjI impI)
  assume w: "START (model g) = Some start \<and> FINISH (model g) = Some finish"
  let ?g' = "if f64_less (Finite (tstart observation)) (to_float64 start) \<or>
             f64_less (to_float64 finish) (Finite (tstop observation))
          then g\<lparr>logged := logged g @ [(WARNING, warning_message observation)]\<rparr>
          else g"
  have c: "check_time g observation (model g) = Inr ?g'"
    using w by (simp add: check_time_set)
  have "compute_phases p phase g observation =
      Inr (?g', shift_phases p (phase (model g) (event_time observation)))"
    by (simp add: compute_phases_def c Let_def)
  moreover have "logged ?g' =
      (if f64_less (Finite (tstart observation)) (to_float64 start) \<or>
             f64_less (to_float64 finish) (Finite (tstop observation))
       then logged g @ [(WARNING, warning_message observation)]
       else logged g)" by simp
  moreover have "(logged ?g' \<noteq> logged g) =
      (f64_less (Finite (tstart observation)) (to_float64 start) \<or>
             f64_less (to_float64 finish) (Finite (tstop observation)))" by simp
  moreover have "model ?g' = model g" by simp
  ultimately show "\<exists>g'. check_time g observation (model g) = Inr g' \<and>
         logged g' =
           (if f64_less (Finite (tstart observation)) (to_float64 start) \<or>
             f64_less (to_float64 finish) (Finite (tstop observation))
            then logged g @ [(WARNING, warning_message observation)]
            else logged g) \<and>
         (logged g' \<noteq> logged g) =
           (f64_less (Finite (tstart observation)) (to_float64 start) \<or>
             f64_less (to_float64 finish) (Finite (tstop observation))) \<and>
         model g' = model g \<and>
         compute_phases p phase g observation =
           Inr (g', shift_phases p (phase (model g) (event_time observation)))"
    using c by blast
next
  assume u: "START (model g) = None \<or> FINISH (model g) = None"
  show "check_time g observation (model g) = Inl ValueError"
    by (rule check_time_unset[OF u])
  then show "compute_phases p phase g observation = Inl ValueError"
    by (simp add: compute_phases_def)
qed

theorem check_time_warns_iff_witness:
  "check_time \<lparr>model = \<lparr>START = Some 55555, FINISH = Some 56000\<rparr>, logged = []\<rparr>
      \<lparr>obs_id = 5029747, tstart = 55554, tstop = 55556, event_time = [],
        events_hdu = ''dl3/run.fits''\<rparr>
      \<lparr>START = Some 55555, FINISH = Some 56000\<rparr>
     = Inr \<lparr>model = \<lparr>START = Some 55555, FINISH = Some 56000\<rparr>, logged = [(WARNING,
         ''Warning: Observation time of observation 5029747 goes out of timing model validity time.'')]\<rparr> \<and>
   check_time \<lparr>model = \<lparr>START = Some 55555, FINISH = Some 56000\<rparr>, logged = []\<rparr>
      \<lparr>obs_id = 5029747, tstart = 55556, tstop = 55557, event_time = [],
        events_hdu = ''dl3/run.fits''\<rparr>
      \<lparr>START = Some 55555, FINISH = Some 56000\<rparr>
     = Inr \<lparr>model = \<lparr>START = Some 55555, FINISH = Some 56000\<rparr>, logged = []\<rparr>"
proof -
  let ?m = "\<lparr>START = Some 55555, FINISH = Some 56000\<rparr>"
  let ?g = "\<lparr>model = ?m, logged = []\<rparr>"
  let ?o1 = "\<lparr>obs_id = 5029747, tstart = 55554, tstop = 55556, event_time = [],
        events_hdu = ''dl3/run.fits''\<rparr>"
  let ?o2 = "\<lparr>obs_id = 5029747, tstart = 55556, tstop = 55557, event_time = [],
        events_hdu = ''dl3/run.fits''\<rparr>"
  have m: "warning_message ?o1
    = ''Warning: Observation time of observation 5029747 goes out of timing model validity time.''"
    by (simp add: warning_message_def str_int_def str_nat.simps digit_char_def)
  have f: "to_float64 55555 = Finite 55555" "to_float64 56000 = Finite 56000" by code_simp+
  have w: "START (model ?g) = Some 55555 \<and> FINISH (model ?g) = Some 56000" by simp
  from check_time_warns_iff[of ?g 55555 56000 ?o1 0 "\<lambda>m ts. ts", THEN conjunct1, rule_format, OF w]
  obtain g1 where g1: "check_time ?g ?o1 (model ?g) = Inr g1"
    and l1: "logged g1 =
           (if f64_less (Finite (tstart ?o1)) (to_float64 55555) \<or>
               f64_less (to_float64 56000) (Finite (tstop ?o1))
            then logged ?g @ [(WARNING, warning_message ?o1)]
            else logged ?g)"
    and m1: "model g1 = model ?g" by blast
  from check_time_warns_iff[of ?g 55555 56000 ?o2 0 "\<lambda>m ts. ts", THEN conjunct1, rule_format, OF w]
  obtain g2 where g2: "check_time ?g ?o2 (model ?g) = Inr g2"
    and l2: "logged g2 =
           (if f64_less (Finite (tstart ?o2)) (to_float64 55555) \<or>
               f64_less (to_float64 56000) (Finite (tstop ?o2))
            then logged ?g @ [(WARNING, warning_message ?o2)]
            else logged ?g)"
    and m2: "model g2 = model ?g" by blast
  have "g1 = \<lparr>model = ?m, logged = [(WARNING,
         ''Warning: Observation time of observation 5029747 goes out of timing model validity time.'')]\<rparr>"
    using l1 m1 by (simp add: f m)
  moreover have "g2 = ?g" using l2 m2 by (simp add: f)
  ultimately show ?thesis using g1 g2 by simp
qed

text \<open>
  Claim C9: the result of \<open>check_time\<close> does not depend on its \<open>timing_model\<close> argument:
  any two timing models passed there give the same result, since the window is read from the
  module-level \<open>model\<close>.
\<close>

theorem check_time_ignores_argument:
  "check_time g observation tm1 = check_time g observation tm2"
  by (simp add: check_time_def)

text \<open>
  Claim C10: the comparisons are strict. When the observation starts exactly at the start of
  the validity window and stops exactly at its end, no warning is logged and nothing is
  raised: the state comes back as it was. The window is compared as the \<open>float64\<close> numbers
  the \<open>Time\<close> array gives back, so this covers a start and a stop equal to those numbers,
  and with it a window of \<open>float64\<close> numbers that the start and the stop equal as they are.
\<close>

theorem check_time_boundary:
  assumes "START (model g) = Some start" "FINISH (model g) = Some finish"
  shows "(to_float64 start = Finite (tstart observation) \<and>
          to_float64 finish = Finite (tstop observation) \<longrightarrow>
           check_time g observation timing_model = Inr g) \<and>
         (tstart observation = start \<and> tstop observation = finish \<and>
          to_float64 start = Finite start \<and> to_float64 finish = Finite finish \<longrightarrow>
           check_time g observation timing_model = Inr g)"
  by (simp add: check_time_set[OF assms])

theorem check_time_boundary_witness:
  "check_time \<lparr>model = \<lparr>START = Some 55555, FINISH = Some 56000\<rparr>, logged = []\<rparr>
      \<lparr>obs_id = 5029747, tstart = 55555, tstop = 56000, event_time = [],
        events_hdu = ''dl3/run.fits''\<rparr>
      \<lparr>START = Some 55555, FINISH = Some 56000\<rparr>
     = Inr \<lparr>model = \<lparr>START = Some 55555, FINISH = Some 56000\<rparr>, logged = []\<rparr>"
proof -
  let ?g = "\<lparr>model = \<lparr>START = Some 55555, FINISH = Some 56000\<rparr>, logged = []\<rparr>"
  let ?o = "\<lparr>obs_id = 5029747, tstart = 55555, tstop = 56000, event_time = [],
        events_hdu = ''dl3/run.fits''\<rparr>"
  have f: "to_float64 55555 = Finite 55555" "to_float64 56000 = Finite 56000" by code_simp+
  have h1: "START (model ?g) = Some 55555" by simp
  have h2: "FINISH (model ?g) = Some 56000" by simp
  have h3: "tstart ?o = 55555 \<and> tstop ?o = 56000 \<and>
      to_float64 55555 = Finite 55555 \<and> to_float64 56000 = Finite 56000" by (simp add: f)
  show ?thesis
    by (rule check_time_boundary[OF h1 h2, of ?o "\<lparr>START = Some 55555, FINISH = Some 56000\<rparr>",
          THEN conjunct2, rule_format, OF h3])
qed

section \<open>Metadata\<close>

text \<open>
  Claim C7: the write of the provenance string is a map update with no check for an
  existing key. \<^verbatim>\<open>table.meta["PH_LOG"] = phase_log\<close> stores the string under \<open>PH_LOG\<close>,
  whether or not the key was there, and a second write under \<open>PH_LOG\<close> leaves the later
  string only, as if the first had not happened. A provenance string under any other key
  stays as it is, written before or after: two writes under distinct keys keep both
  entries. The columns are untouched. The same holds of \<^verbatim>\<open>table.meta[key] = val\<close> for
  any two keys.
\<close>

theorem add_phase_log_map_update:
  "meta (add_phase_log t v) ''PH_LOG'' = Some v \<and>
   meta (add_phase_log (add_phase_log t v1) v2) ''PH_LOG'' = Some v2 \<and>
   add_phase_log (add_phase_log t v1) v2 = add_phase_log t v2 \<and>
   (k \<noteq> ''PH_LOG'' \<longrightarrow>
      meta (add_phase_log t v) k = meta t k \<and>
      meta (add_phase_log (meta_setitem t k v1) v2) k = Some v1 \<and>
      meta (add_phase_log (meta_setitem t k v1) v2) ''PH_LOG'' = Some v2 \<and>
      meta (meta_setitem (add_phase_log t v1) k v2) ''PH_LOG'' = Some v1 \<and>
      meta (meta_setitem (add_phase_log t v1) k v2) k = Some v2) \<and>
   columns (add_phase_log t v) = columns t \<and>
   (k1 \<noteq> k2 \<longrightarrow>
      meta (meta_setitem (meta_setitem t k1 v1) k2 v2) k1 = Some v1 \<and>
      meta (meta_setitem (meta_setitem t k1 v1) k2 v2) k2 = Some v2) \<and>
   meta (meta_setitem (meta_setitem t k v1) k v2) k = Some v2 \<and>
   meta_setitem (meta_setitem t k v1) k v2 = meta_setitem t k v2 \<and>
   (\<forall>k'. k' \<noteq> k \<longrightarrow> meta (meta_setitem t k v1) k' = meta t k') \<and>
   columns (meta_setitem t k v1) = columns t"
  by (simp add: meta_setitem_def add_phase_log_def)

theorem add_phase_log_map_update_witness:
  "meta (add_phase_log \<lparr>columns = [], meta = [''PH_LOG'' \<mapsto> ''old'']\<rparr> ''new'') ''PH_LOG''
     = Some ''new'' \<and>
   meta (add_phase_log (meta_setitem \<lparr>columns = [], meta = Map.empty\<rparr> ''PH_LOG2'' ''a'') ''b'')
     ''PH_LOG2'' = Some ''a'' \<and>
   meta (add_phase_log (meta_setitem \<lparr>columns = [], meta = Map.empty\<rparr> ''PH_LOG2'' ''a'') ''b'')
     ''PH_LOG'' = Some ''b'' \<and>
   meta (meta_setitem (meta_setitem \<lparr>columns = [], meta = Map.empty\<rparr> ''PH_LOG'' ''a'') ''PH_LOG'' ''b'')
     ''PH_LOG'' = Some ''b''"
proof -
  have h: "''PH_LOG2'' \<noteq> ''PH_LOG''" by simp
  note a = add_phase_log_map_update[of "\<lparr>columns = [], meta = [''PH_LOG'' \<mapsto> ''old'']\<rparr>" "''new''"
      "''a''" "''b''" "''PH_LOG2''" "''PH_LOG''" "''PH_LOG2''"]
  note b = add_phase_log_map_update[of "\<lparr>columns = [], meta = Map.empty\<rparr>" "''new''"
      "''a''" "''b''" "''PH_LOG2''" "''PH_LOG''" "''PH_LOG2''"]
  note c = add_phase_log_map_update[of "\<lparr>columns = [], meta = Map.empty\<rparr>" "''new''"
      "''a''" "''b''" "''PH_LOG''" "''PH_LOG''" "''PH_LOG2''"]
  from a have 1: "meta (add_phase_log \<lparr>columns = [], meta = [''PH_LOG'' \<mapsto> ''old'']\<rparr> ''new'')
      ''PH_LOG'' = Some ''new''" by blast
  from b h have 2: "meta (add_phase_log (meta_setitem \<lparr>columns = [], meta = Map.empty\<rparr>
      ''PH_LOG2'' ''a'') ''b'') ''PH_LOG2'' = Some ''a''"
    and 3: "meta (add_phase_log (meta_setitem \<lparr>columns = [], meta = Map.empty\<rparr>
      ''PH_LOG2'' ''a'') ''b'') ''PH_LOG'' = Some ''b''" by blast+
  from c have 4: "meta (meta_setitem (meta_setitem \<lparr>columns = [], meta = Map.empty\<rparr>
      ''PH_LOG'' ''a'') ''PH_LOG'' ''b'') ''PH_LOG'' = Some ''b''" by blast
  from 1 2 3 4 show ?thesis by blast
qed

section \<open>Adding the phases to the event list\<close>

lemma map_of_replace:
  "name \<in> set (map fst cs) \<Longrightarrow>
   map_of (map (\<lambda>c. if fst c = name then (name, vals) else c) cs) name = Some vals"
  by (induction cs) auto

lemma map_of_replace_other:
  "n \<noteq> name \<Longrightarrow>
   map_of (map (\<lambda>c. if fst c = name then (name, vals) else c) cs) n = map_of cs n"
  by (induction cs) auto

lemma map_of_append_new:
  "name \<notin> set (map fst cs) \<Longrightarrow> map_of (cs @ [(name, vals)]) name = Some vals"
  by (induction cs) auto

lemma map_of_append_other:
  "n \<noteq> name \<Longrightarrow> map_of (cs @ [(name, vals)]) n = map_of cs n"
  by (induction cs) auto

lemma replicate_one_hd: "length vals = 1 \<Longrightarrow> replicate 1 (hd vals) = vals"
  by (cases vals) simp_all

text \<open>What a successful column assignment leaves behind.\<close>

lemma table_setitem_column:
  assumes "table_setitem t name vals = Inr t'"
  shows "meta t' = meta t"
    and "name \<in> fst ` set (columns t')"
    and "n \<noteq> name \<Longrightarrow> map_of (columns t') n = map_of (columns t) n"
    and "length vals = nrows t \<Longrightarrow> map_of (columns t') name = Some vals"
proof -
  have "meta t' = meta t \<and> name \<in> fst ` set (columns t') \<and>
      (n \<noteq> name \<longrightarrow> map_of (columns t') n = map_of (columns t) n) \<and>
      (length vals = nrows t \<longrightarrow> map_of (columns t') name = Some vals)"
  proof (cases "name \<in> set (map fst (columns t))")
    case True
    with assms obtain v where t': "t' = replace_column t name v"
      and v: "length vals = nrows t \<longrightarrow> v = vals"
      by (auto simp add: table_setitem_def replicate_one_hd split: if_splits)
    have a: "map_of (columns t') name = Some v"
      unfolding t' replace_column_def using map_of_replace[OF True, of v] by simp
    then have b: "name \<in> fst ` set (columns t')"
      by (metis map_of_eq_None_iff option.distinct(1))
    have c: "n \<noteq> name \<longrightarrow> map_of (columns t') n = map_of (columns t) n"
      by (simp add: t' replace_column_def map_of_replace_other)
    have d: "length vals = nrows t \<longrightarrow> map_of (columns t') name = Some vals"
      using a v by auto
    have "meta t' = meta t" by (simp add: t' replace_column_def)
    with b c d show ?thesis by blast
  next
    case False
    define v where "v = (if length vals = 1 \<and> 0 < nrows t
                         then replicate (nrows t) (hd vals) else vals)"
    from False assms have "Inr t' = (Inr (t\<lparr>columns := columns t @ [(name, v)]\<rparr>) :: error + table)"
      unfolding table_setitem_def Let_def v_def[symmetric] by (simp split: if_splits)
    then have t': "t' = t\<lparr>columns := columns t @ [(name, v)]\<rparr>" by simp
    have v: "length vals = nrows t \<longrightarrow> v = vals"
      using replicate_one_hd[of vals] by (auto simp add: v_def)
    have cols: "columns t' = columns t @ [(name, v)]" by (simp add: t')
    have a: "map_of (columns t') name = Some v"
      unfolding cols by (rule map_of_append_new[OF False])
    have b: "name \<in> fst ` set (columns t')" by (simp add: t')
    have c: "n \<noteq> name \<longrightarrow> map_of (columns t') n = map_of (columns t) n"
      unfolding cols by (intro impI) (rule map_of_append_other)
    have d: "length vals = nrows t \<longrightarrow> map_of (columns t') name = Some vals"
      using a v by auto
    have "meta t' = meta t" by (simp add: t')
    with b c d show ?thesis by blast
  qed
  then show "meta t' = meta t"
    and "name \<in> fst ` set (columns t')"
    and "n \<noteq> name \<Longrightarrow> map_of (columns t') n = map_of (columns t) n"
    and "length vals = nrows t \<Longrightarrow> map_of (columns t') name = Some vals"
    by blast+
qed

text \<open>An array with one value per row is always accepted.\<close>

lemma table_setitem_fits:
  assumes "length vals = nrows t"
  shows "\<exists>t'. table_setitem t name vals = Inr t'"
  using assms by (auto simp add: table_setitem_def Let_def)

text \<open>The cells, step by step, on an observation whose events file is there.\<close>

lemma add_phases_unfold:
  assumes "event_files h (events_hdu observation) = Some t"
  shows "add_phases h observation phases phase_log =
     (case table_setitem t ''PHASE'' (astype_float64 phases) of
        Inl e \<Rightarrow> (h\<lparr>event_tables := (event_tables h)(next_table h := t),
                    next_table := Suc (next_table h)\<rparr>, Inl e)
      | Inr t' \<Rightarrow> (h\<lparr>event_tables := (event_tables h)(next_table h := add_phase_log t' phase_log),
                     next_table := Suc (next_table h)\<rparr>,
                   Inr \<lparr>copied = observation, event_list = next_table h\<rparr>))"
  using assms by (simp add: add_phases_def load_events_def Let_def split: sum.splits)

text \<open>
  Claim C3: adding the phase column and the provenance string does not change the event list
  of the input observation. The observation is file-backed; the cells write into the table
  object that the access \<^verbatim>\<open>observation.events.table\<close> has just read from the events
  file, a new object. Afterwards the events file is as it was, every table object that
  existed before is as it was, and the event table the input observation gives on the next
  access is the table of the file: no new column, no new key. The new column and the new
  key are in the new table object only, which the new observation holds: its metadata is
  that of the file with \<open>PH_LOG\<close> set to the provenance string, its other columns are those
  of the file, and with one phase per event the cells succeed and the \<open>PHASE\<close> column holds
  the phases as \<open>float64\<close>.
\<close>

theorem add_phases_keeps_original:
  assumes "add_phases h observation phases phase_log = (h', res)"
    and "event_files h (events_hdu observation) = Some t"
  shows "event_files h' = event_files h \<and>
    (\<forall>r. r \<noteq> next_table h \<longrightarrow> event_tables h' r = event_tables h r) \<and>
    next_table h' = Suc (next_table h) \<and>
    (\<exists>h''. load_events h' observation = Inr (next_table h', h'') \<and>
            event_tables h'' (next_table h') = t) \<and>
    (length phases = nrows t \<longrightarrow>
       res = Inr \<lparr>copied = observation, event_list = next_table h\<rparr>) \<and>
    (\<forall>new_obs. res = Inr new_obs \<longrightarrow>
       copied new_obs = observation \<and>
       event_list new_obs = next_table h \<and>
       meta (event_tables h' (event_list new_obs)) = (meta t)(''PH_LOG'' \<mapsto> phase_log) \<and>
       ''PHASE'' \<in> fst ` set (columns (event_tables h' (event_list new_obs))) \<and>
       (\<forall>name. name \<noteq> ''PHASE'' \<longrightarrow>
          map_of (columns (event_tables h' (event_list new_obs))) name
            = map_of (columns t) name) \<and>
       (length phases = nrows t \<longrightarrow>
          map_of (columns (event_tables h' (event_list new_obs))) ''PHASE''
            = Some (astype_float64 phases)))"
proof (cases "table_setitem t ''PHASE'' (astype_float64 phases)")
  case (Inl e)
  have l: "length (astype_float64 phases) = length phases" by (simp add: astype_float64_def)
  have h': "h' = h\<lparr>event_tables := (event_tables h)(next_table h := t),
                    next_table := Suc (next_table h)\<rparr>"
    and res: "res = Inl e"
    using assms(1) unfolding add_phases_unfold[OF assms(2)] Inl by simp_all
  have nofit: "length phases \<noteq> nrows t"
    using table_setitem_fits[of "astype_float64 phases" t "''PHASE''"] Inl l by auto
  show ?thesis
    using nofit assms(2) by (simp add: h' res load_events_def)
next
  case (Inr t')
  have l: "length (astype_float64 phases) = length phases" by (simp add: astype_float64_def)
  have h': "h' = h\<lparr>event_tables := (event_tables h)(next_table h := add_phase_log t' phase_log),
                     next_table := Suc (next_table h)\<rparr>"
    and res: "res = Inr \<lparr>copied = observation, event_list = next_table h\<rparr>"
    using assms(1) unfolding add_phases_unfold[OF assms(2)] Inr by simp_all
  note c = table_setitem_column[OF Inr]
  have m: "meta (add_phase_log t' phase_log) = (meta t)(''PH_LOG'' \<mapsto> phase_log)"
    by (simp add: add_phase_log_def meta_setitem_def c(1))
  have cols: "columns (add_phase_log t' phase_log) = columns t'"
    by (simp add: add_phase_log_def meta_setitem_def)
  have p: "length phases = nrows t \<longrightarrow> map_of (columns t') ''PHASE'' = Some (astype_float64 phases)"
    using c(4) l by simp
  have o: "\<forall>name. name \<noteq> ''PHASE'' \<longrightarrow> map_of (columns t') name = map_of (columns t) name"
    using c(3) by blast
  show ?thesis
    using assms(2) c(2) p o by (simp add: h' res load_events_def m cols)
qed

theorem add_phases_keeps_original_witness:
  "snd (add_phases
      \<lparr>event_tables = (\<lambda>r. \<lparr>columns = [], meta = Map.empty\<rparr>), next_table = 0,
        event_files = [''dl3/run.fits'' \<mapsto>
          \<lparr>columns = [(''TIME'', [Finite 1, Finite 2, Finite 3])],
            meta = [''OBS_ID'' \<mapsto> ''5029747'']\<rparr>]\<rparr>
      \<lparr>obs_id = 5029747, tstart = 55555, tstop = 55556, event_time = [1, 2, 3],
        events_hdu = ''dl3/run.fits''\<rparr>
      [7 / 8, 1 / 8, 5 / 8] ''COLUMN_PHASE: PHASE;'')
    = Inr \<lparr>copied = \<lparr>obs_id = 5029747, tstart = 55555, tstop = 55556, event_time = [1, 2, 3],
             events_hdu = ''dl3/run.fits''\<rparr>, event_list = 0\<rparr> \<and>
   (\<exists>h''. load_events (fst (add_phases
      \<lparr>event_tables = (\<lambda>r. \<lparr>columns = [], meta = Map.empty\<rparr>), next_table = 0,
        event_files = [''dl3/run.fits'' \<mapsto>
          \<lparr>columns = [(''TIME'', [Finite 1, Finite 2, Finite 3])],
            meta = [''OBS_ID'' \<mapsto> ''5029747'']\<rparr>]\<rparr>
      \<lparr>obs_id = 5029747, tstart = 55555, tstop = 55556, event_time = [1, 2, 3],
        events_hdu = ''dl3/run.fits''\<rparr>
      [7 / 8, 1 / 8, 5 / 8] ''COLUMN_PHASE: PHASE;''))
      \<lparr>obs_id = 5029747, tstart = 55555, tstop = 55556, event_time = [1, 2, 3],
        events_hdu = ''dl3/run.fits''\<rparr> = Inr (1, h'') \<and>
     columns (event_tables h'' 1) = [(''TIME'', [Finite 1, Finite 2, Finite 3])] \<and>
     meta (event_tables h'' 1) ''PH_LOG'' = None) \<and>
   map_of (columns (event_tables (fst (add_phases
      \<lparr>event_tables = (\<lambda>r. \<lparr>columns = [], meta = Map.empty\<rparr>), next_table = 0,
        event_files = [''dl3/run.fits'' \<mapsto>
          \<lparr>columns = [(''TIME'', [Finite 1, Finite 2, Finite 3])],
            meta = [''OBS_ID'' \<mapsto> ''5029747'']\<rparr>]\<rparr>
      \<lparr>obs_id = 5029747, tstart = 55555, tstop = 55556, event_time = [1, 2, 3],
        events_hdu = ''dl3/run.fits''\<rparr>
      [7 / 8, 1 / 8, 5 / 8] ''COLUMN_PHASE: PHASE;'')) 0)) ''PHASE''
    = Some [Finite (7 / 8), Finite (1 / 8), Finite (5 / 8)] \<and>
   meta (event_tables (fst (add_phases
      \<lparr>event_tables = (\<lambda>r. \<lparr>columns = [], meta = Map.empty\<rparr>), next_table = 0,
        event_files = [''dl3/run.fits'' \<mapsto>
          \<lparr>columns = [(''TIME'', [Finite 1, Finite 2, Finite 3])],
            meta = [''OBS_ID'' \<mapsto> ''5029747'']\<rparr>]\<rparr>
      \<lparr>obs_id = 5029747, tstart = 55555, tstop = 55556, event_time = [1, 2, 3],
        events_hdu = ''dl3/run.fits''\<rparr>
      [7 / 8, 1 / 8, 5 / 8] ''COLUMN_PHASE: PHASE;'')) 0) ''PH_LOG''
    = Some ''COLUMN_PHASE: PHASE;''"
proof -
  let ?t = "\<lparr>columns = [(''TIME'', [Finite 1, Finite 2, Finite 3])],
            meta = [''OBS_ID'' \<mapsto> ''5029747'']\<rparr>"
  let ?h = "\<lparr>event_tables = (\<lambda>r. \<lparr>columns = [], meta = Map.empty\<rparr>), next_table = 0,
        event_files = [''dl3/run.fits'' \<mapsto> ?t]\<rparr>"
  let ?o = "\<lparr>obs_id = 5029747, tstart = 55555, tstop = 55556, event_time = [1, 2, 3],
        events_hdu = ''dl3/run.fits''\<rparr>"
  let ?p = "[7 / 8, 1 / 8, 5 / 8] :: float list"
  let ?l = "''COLUMN_PHASE: PHASE;''"
  define h' where "h' = fst (add_phases ?h ?o ?p ?l)"
  define res where "res = snd (add_phases ?h ?o ?p ?l)"
  have a: "add_phases ?h ?o ?p ?l = (h', res)" by (simp add: h'_def res_def)
  have f: "event_files ?h (events_hdu ?o) = Some ?t" by simp
  have n: "length ?p = nrows ?t" by (simp add: nrows_def)
  have v: "astype_float64 ?p = [Finite (7 / 8), Finite (1 / 8), Finite (5 / 8)]" by code_simp
  note k = add_phases_keeps_original[OF a f]
  from k have nt: "next_table h' = 1" by simp
  from k n have r: "res = Inr \<lparr>copied = ?o, event_list = 0\<rparr>" by simp
  from k obtain h'' where l: "load_events h' ?o = Inr (next_table h', h'')"
    and lt: "event_tables h'' (next_table h') = ?t" by blast
  from k r n have ph: "map_of (columns (event_tables h' 0)) ''PHASE'' = Some (astype_float64 ?p)"
    by simp
  from k r have me: "meta (event_tables h' 0) = (meta ?t)(''PH_LOG'' \<mapsto> ?l)" by simp
  have 1: "snd (add_phases ?h ?o ?p ?l) = Inr \<lparr>copied = ?o, event_list = 0\<rparr>"
    using r by (simp only: res_def)
  have 2: "\<exists>h''. load_events (fst (add_phases ?h ?o ?p ?l)) ?o = Inr (1, h'') \<and>
     columns (event_tables h'' 1) = [(''TIME'', [Finite 1, Finite 2, Finite 3])] \<and>
     meta (event_tables h'' 1) ''PH_LOG'' = None"
  proof -
    have l1: "load_events h' ?o = Inr (1, h'')" using l by (simp only: nt)
    have lt1: "event_tables h'' 1 = ?t" using lt by (simp only: nt)
    show ?thesis unfolding h'_def[symmetric] using l1 lt1 by (intro exI[of _ h'']) simp
  qed
  have 3: "map_of (columns (event_tables (fst (add_phases ?h ?o ?p ?l)) 0)) ''PHASE''
      = Some [Finite (7 / 8), Finite (1 / 8), Finite (5 / 8)]"
    using ph unfolding h'_def v .
  have 4: "meta (event_tables (fst (add_phases ?h ?o ?p ?l)) 0) ''PH_LOG'' = Some ?l"
    using me unfolding h'_def by simp
  from 1 2 3 4 show ?thesis by (intro conjI)
qed

section \<open>The index patch\<close>

lemma patch_rows_map:
  "patch_rows wd wn target dir fn t =
     map (\<lambda>entry. if HDU_NAME entry = ''EVENTS'' \<and> OBS_ID entry = target
                  then entry\<lparr>FILE_DIR := take wd (''./'' @ dir), FILE_NAME := take wn fn\<rparr>
                  else entry) t"
  by (induction t) (simp_all add: string_assign_def)

lemma patch_rows_length: "length (patch_rows wd wn target dir fn t) = length t"
  by (simp add: patch_rows_map)

lemma patch_rows_nth:
  "i < length t \<Longrightarrow>
   patch_rows wd wn target dir fn t ! i =
     (if HDU_NAME (t ! i) = ''EVENTS'' \<and> OBS_ID (t ! i) = target
      then (t ! i)\<lparr>FILE_DIR := take wd (''./'' @ dir), FILE_NAME := take wn fn\<rparr> else t ! i)"
  by (simp add: patch_rows_map)

lemma patch_rows_single:
  assumes "i < length t" "HDU_NAME (t ! i) = ''EVENTS''" "OBS_ID (t ! i) = target"
    and "\<forall>j < length t. j \<noteq> i \<longrightarrow> \<not> (HDU_NAME (t ! j) = ''EVENTS'' \<and> OBS_ID (t ! j) = target)"
  shows "patch_rows wd wn target dir fn t
    = t[i := (t ! i)\<lparr>FILE_DIR := take wd (''./'' @ dir), FILE_NAME := take wn fn\<rparr>]"
proof (rule nth_equalityI)
  show "length (patch_rows wd wn target dir fn t) =
        length (t[i := (t ! i)\<lparr>FILE_DIR := take wd (''./'' @ dir), FILE_NAME := take wn fn\<rparr>])"
    by (simp add: patch_rows_length)
next
  fix j assume "j < length (patch_rows wd wn target dir fn t)"
  then have j: "j < length t" by (simp add: patch_rows_length)
  show "patch_rows wd wn target dir fn t ! j =
        t[i := (t ! i)\<lparr>FILE_DIR := take wd (''./'' @ dir), FILE_NAME := take wn fn\<rparr>] ! j"
  proof (cases "j = i")
    case True
    then show ?thesis using assms(1-3) by (simp add: patch_rows_nth)
  next
    case False
    then have "\<not> (HDU_NAME (t ! j) = ''EVENTS'' \<and> OBS_ID (t ! j) = target)"
      using assms(4) j by blast
    then have "patch_rows wd wn target dir fn t ! j = t ! j"
      using j by (simp only: patch_rows_nth if_False)
    then show ?thesis using False j by simp
  qed
qed

lemma patch_index_rows:
  "rows (patch_index target dir fn t)
     = patch_rows (dir_width t) (name_width t) target dir fn (rows t)"
  by (simp add: patch_index_def)

text \<open>
  Claim C2 as stated fails: the loop rewrites every row that passes its test, which need not
  be exactly one row. In an index whose events extension is named \<open>events\<close> no row is
  changed; in an index with two rows \<open>EVENTS\<close> of the target both are changed.
\<close>

theorem patch_changes_none_or_two:
  "changed_rows
     [\<lparr>OBS_ID = 5029747, HDU_NAME = ''events'', FILE_DIR = ''./'', FILE_NAME = ''run.fits''\<rparr>,
      \<lparr>OBS_ID = 5029748, HDU_NAME = ''EVENTS'', FILE_DIR = ''./'', FILE_NAME = ''other.fits''\<rparr>]
     (rows (patch_index 5029747 ''pulsar_events_file/'' ''dl3_pulsar_5029747.fits.gz''
       \<lparr>rows =
         [\<lparr>OBS_ID = 5029747, HDU_NAME = ''events'', FILE_DIR = ''./'', FILE_NAME = ''run.fits''\<rparr>,
          \<lparr>OBS_ID = 5029748, HDU_NAME = ''EVENTS'', FILE_DIR = ''./'', FILE_NAME = ''other.fits''\<rparr>],
        dir_width = 100, name_width = 100\<rparr>))
     = [] \<and>
   changed_rows
     [\<lparr>OBS_ID = 5029747, HDU_NAME = ''EVENTS'', FILE_DIR = ''./'', FILE_NAME = ''a.fits''\<rparr>,
      \<lparr>OBS_ID = 5029747, HDU_NAME = ''EVENTS'', FILE_DIR = ''./'', FILE_NAME = ''b.fits''\<rparr>]
     (rows (patch_index 5029747 ''pulsar_events_file/'' ''dl3_pulsar_5029747.fits.gz''
       \<lparr>rows =
         [\<lparr>OBS_ID = 5029747, HDU_NAME = ''EVENTS'', FILE_DIR = ''./'', FILE_NAME = ''a.fits''\<rparr>,
          \<lparr>OBS_ID = 5029747, HDU_NAME = ''EVENTS'', FILE_DIR = ''./'', FILE_NAME = ''b.fits''\<rparr>],
        dir_width = 100, name_width = 100\<rparr>))
     = [0, 1]"
  by (simp add: changed_rows_def upt_rec patch_index_def string_assign_def)

text \<open>
  A string column is no wider than it was made. In an index whose \<open>FILE_DIR\<close> column is
  two characters wide and whose \<open>FILE_NAME\<close> column is ten, the matching row ends up with
  the first two and the first ten characters of the new values.
\<close>

lemma patch_index_truncates:
  "rows (patch_index 5029747 ''pulsar_events_file/'' ''dl3_pulsar_5029747.fits.gz''
     \<lparr>rows =
       [\<lparr>OBS_ID = 5029747, HDU_NAME = ''EVENTS'', FILE_DIR = ''./'', FILE_NAME = ''run.fits''\<rparr>],
      dir_width = 2, name_width = 10\<rparr>)
   = [\<lparr>OBS_ID = 5029747, HDU_NAME = ''EVENTS'', FILE_DIR = ''./'', FILE_NAME = ''dl3_pulsar''\<rparr>]"
  by (simp add: patch_index_def string_assign_def)

text \<open>
  Claim C2, amended: the index patch sets the directory and filename fields of every row
  whose \<open>HDU_NAME\<close> is \<open>EVENTS\<close> and whose \<open>OBS_ID\<close> equals the target, to the new
  directory and the new file name, each cut to the width of its string column (so in full
  when the column is wide enough), and leaves every other row and every other column of the
  table unchanged, the number and order of the rows and the widths of the columns included.
  When exactly one row passes the test, the result is the table with exactly that row
  rewritten.
\<close>

theorem patch_index_frame:
  "length (rows (patch_index target dir fn t)) = length (rows t) \<and>
   dir_width (patch_index target dir fn t) = dir_width t \<and>
   name_width (patch_index target dir fn t) = name_width t \<and>
   hdu_index.more (patch_index target dir fn t) = hdu_index.more t \<and>
   (\<forall>i < length (rows t).
      OBS_ID (rows (patch_index target dir fn t) ! i) = OBS_ID (rows t ! i) \<and>
      HDU_NAME (rows (patch_index target dir fn t) ! i) = HDU_NAME (rows t ! i) \<and>
      hdu_row.more (rows (patch_index target dir fn t) ! i) = hdu_row.more (rows t ! i) \<and>
      (if HDU_NAME (rows t ! i) = ''EVENTS'' \<and> OBS_ID (rows t ! i) = target
       then FILE_DIR (rows (patch_index target dir fn t) ! i)
              = take (dir_width t) (''./'' @ dir) \<and>
            FILE_NAME (rows (patch_index target dir fn t) ! i) = take (name_width t) fn \<and>
            (length (''./'' @ dir) \<le> dir_width t \<longrightarrow>
               FILE_DIR (rows (patch_index target dir fn t) ! i) = ''./'' @ dir) \<and>
            (length fn \<le> name_width t \<longrightarrow>
               FILE_NAME (rows (patch_index target dir fn t) ! i) = fn)
       else rows (patch_index target dir fn t) ! i = rows t ! i)) \<and>
   (\<forall>i < length (rows t).
      HDU_NAME (rows t ! i) = ''EVENTS'' \<and> OBS_ID (rows t ! i) = target \<and>
      (\<forall>j < length (rows t). j \<noteq> i \<longrightarrow>
         \<not> (HDU_NAME (rows t ! j) = ''EVENTS'' \<and> OBS_ID (rows t ! j) = target))
      \<longrightarrow> rows (patch_index target dir fn t)
            = (rows t)[i := (rows t ! i)\<lparr>FILE_DIR := take (dir_width t) (''./'' @ dir),
                                          FILE_NAME := take (name_width t) fn\<rparr>])"
proof (intro conjI allI impI)
  show "length (rows (patch_index target dir fn t)) = length (rows t)"
    by (simp add: patch_index_rows patch_rows_length)
next
  show "dir_width (patch_index target dir fn t) = dir_width t" by (simp add: patch_index_def)
next
  show "name_width (patch_index target dir fn t) = name_width t" by (simp add: patch_index_def)
next
  show "hdu_index.more (patch_index target dir fn t) = hdu_index.more t"
    by (simp add: patch_index_def)
next
  fix i assume "i < length (rows t)"
  then show "OBS_ID (rows (patch_index target dir fn t) ! i) = OBS_ID (rows t ! i)"
    by (simp add: patch_index_rows patch_rows_nth)
next
  fix i assume "i < length (rows t)"
  then show "HDU_NAME (rows (patch_index target dir fn t) ! i) = HDU_NAME (rows t ! i)"
    by (simp add: patch_index_rows patch_rows_nth)
next
  fix i assume "i < length (rows t)"
  then show "hdu_row.more (rows (patch_index target dir fn t) ! i) = hdu_row.more (rows t ! i)"
    by (simp add: patch_index_rows patch_rows_nth)
next
  fix i assume "i < length (rows t)"
  then show "if HDU_NAME (rows t ! i) = ''EVENTS'' \<and> OBS_ID (rows t ! i) = target
       then FILE_DIR (rows (patch_index target dir fn t) ! i)
              = take (dir_width t) (''./'' @ dir) \<and>
            FILE_NAME (rows (patch_index target dir fn t) ! i) = take (name_width t) fn \<and>
            (length (''./'' @ dir) \<le> dir_width t \<longrightarrow>
               FILE_DIR (rows (patch_index target dir fn t) ! i) = ''./'' @ dir) \<and>
            (length fn \<le> name_width t \<longrightarrow>
               FILE_NAME (rows (patch_index target dir fn t) ! i) = fn)
       else rows (patch_index target dir fn t) ! i = rows t ! i"
    by (simp add: patch_index_rows patch_rows_nth)
next
  fix i
  assume i: "i < length (rows t)"
    and h: "HDU_NAME (rows t ! i) = ''EVENTS'' \<and> OBS_ID (rows t ! i) = target \<and>
      (\<forall>j < length (rows t). j \<noteq> i \<longrightarrow>
         \<not> (HDU_NAME (rows t ! j) = ''EVENTS'' \<and> OBS_ID (rows t ! j) = target))"
  from h have a: "HDU_NAME (rows t ! i) = ''EVENTS''" and b: "OBS_ID (rows t ! i) = target"
    and c: "\<forall>j < length (rows t). j \<noteq> i \<longrightarrow>
         \<not> (HDU_NAME (rows t ! j) = ''EVENTS'' \<and> OBS_ID (rows t ! j) = target)"
    by blast+
  show "rows (patch_index target dir fn t)
            = (rows t)[i := (rows t ! i)\<lparr>FILE_DIR := take (dir_width t) (''./'' @ dir),
                                          FILE_NAME := take (name_width t) fn\<rparr>]"
    unfolding patch_index_rows by (rule patch_rows_single[OF i a b c])
qed

theorem patch_index_frame_witness:
  "rows (patch_index 5029747 ''pulsar_events_file/'' ''dl3_pulsar_5029747.fits.gz''
     \<lparr>rows =
       [\<lparr>OBS_ID = 5029747, HDU_NAME = ''GTI'', FILE_DIR = ''./'', FILE_NAME = ''run.fits''\<rparr>,
        \<lparr>OBS_ID = 5029747, HDU_NAME = ''EVENTS'', FILE_DIR = ''./'', FILE_NAME = ''run.fits''\<rparr>,
        \<lparr>OBS_ID = 5029748, HDU_NAME = ''EVENTS'', FILE_DIR = ''./'', FILE_NAME = ''other.fits''\<rparr>],
      dir_width = 100, name_width = 100\<rparr>)
   = [\<lparr>OBS_ID = 5029747, HDU_NAME = ''GTI'', FILE_DIR = ''./'', FILE_NAME = ''run.fits''\<rparr>,
      \<lparr>OBS_ID = 5029747, HDU_NAME = ''EVENTS'', FILE_DIR = ''./pulsar_events_file/'',
        FILE_NAME = ''dl3_pulsar_5029747.fits.gz''\<rparr>,
      \<lparr>OBS_ID = 5029748, HDU_NAME = ''EVENTS'', FILE_DIR = ''./'', FILE_NAME = ''other.fits''\<rparr>] \<and>
   rows (patch_index 5029747 ''pulsar_events_file/'' ''dl3_pulsar_5029747.fits.gz''
     \<lparr>rows =
       [\<lparr>OBS_ID = 5029747, HDU_NAME = ''GTI'', FILE_DIR = ''./'', FILE_NAME = ''run.fits''\<rparr>,
        \<lparr>OBS_ID = 5029747, HDU_NAME = ''EVENTS'', FILE_DIR = ''./'', FILE_NAME = ''run.fits''\<rparr>,
        \<lparr>OBS_ID = 5029748, HDU_NAME = ''EVENTS'', FILE_DIR = ''./'', FILE_NAME = ''other.fits''\<rparr>],
      dir_width = 2, name_width = 10\<rparr>)
   = [\<lparr>OBS_ID = 5029747, HDU_NAME = ''GTI'', FILE_DIR = ''./'', FILE_NAME = ''run.fits''\<rparr>,
      \<lparr>OBS_ID = 5029747, HDU_NAME = ''EVENTS'', FILE_DIR = ''./'', FILE_NAME = ''dl3_pulsar''\<rparr>,
      \<lparr>OBS_ID = 5029748, HDU_NAME = ''EVENTS'', FILE_DIR = ''./'', FILE_NAME = ''other.fits''\<rparr>]"
proof -
  let ?r = "[\<lparr>OBS_ID = 5029747, HDU_NAME = ''GTI'', FILE_DIR = ''./'', FILE_NAME = ''run.fits''\<rparr>,
      \<lparr>OBS_ID = 5029747, HDU_NAME = ''EVENTS'', FILE_DIR = ''./'', FILE_NAME = ''run.fits''\<rparr>,
      \<lparr>OBS_ID = 5029748, HDU_NAME = ''EVENTS'', FILE_DIR = ''./'', FILE_NAME = ''other.fits''\<rparr>]"
  let ?t = "\<lparr>rows = ?r, dir_width = 100, name_width = 100\<rparr>"
  let ?u = "\<lparr>rows = ?r, dir_width = 2, name_width = 10\<rparr>"
  have one: "1 < length (rows ?t)" "1 < length (rows ?u)" by simp_all
  have hit: "HDU_NAME (rows ?t ! 1) = ''EVENTS'' \<and> OBS_ID (rows ?t ! 1) = 5029747 \<and>
      (\<forall>j < length (rows ?t). j \<noteq> 1 \<longrightarrow>
         \<not> (HDU_NAME (rows ?t ! j) = ''EVENTS'' \<and> OBS_ID (rows ?t ! j) = 5029747))"
    by (simp add: less_Suc_eq)
  have hit': "HDU_NAME (rows ?u ! 1) = ''EVENTS'' \<and> OBS_ID (rows ?u ! 1) = 5029747 \<and>
      (\<forall>j < length (rows ?u). j \<noteq> 1 \<longrightarrow>
         \<not> (HDU_NAME (rows ?u ! j) = ''EVENTS'' \<and> OBS_ID (rows ?u ! j) = 5029747))"
    by (simp add: less_Suc_eq)
  note c = patch_index_frame[of 5029747 "''pulsar_events_file/''" "''dl3_pulsar_5029747.fits.gz''" ?t,
      THEN conjunct2, THEN conjunct2, THEN conjunct2, THEN conjunct2, THEN conjunct2,
      rule_format, OF one(1) hit]
  note d = patch_index_frame[of 5029747 "''pulsar_events_file/''" "''dl3_pulsar_5029747.fits.gz''" ?u,
      THEN conjunct2, THEN conjunct2, THEN conjunct2, THEN conjunct2, THEN conjunct2,
      rule_format, OF one(2) hit']
  show ?thesis using c d by simp
qed

lemma store_ok_fresh:
  assumes "store_ok s" "tables s r = Some t"
  shows "r \<noteq> next_ref s"
  using assms by (auto simp add: store_ok_def dom_def)

text \<open>
  The loop changes the object it is given: run on the reference of the data store itself,
  it would rewrite the data store's table. The copy is what keeps the original.
\<close>

lemma patch_table_in_place:
  assumes "tables s r = Some t" "patch_table s r target dir fn = Some s'"
  shows "tables s' r = Some (patch_index target dir fn t)"
  using assms by (auto simp add: patch_table_def)

text \<open>
  Claim C8: the patch works on a copy of the data store's index table. After the copy has
  been patched and written under the new file name, the table object of the data store holds
  the rows it held before, every other table object is unchanged too, and every file but the
  one written is unchanged: the original index file is untouched as long as its path is not
  the new one.
\<close>

theorem index_patch_on_copy:
  assumes "store_ok s" "tables s (hdu_table ds) = Some t"
  shows "\<exists>s'. write_modified_index s ds observation = Some s' \<and>
     tables s' (hdu_table ds) = Some t \<and>
     (\<forall>r \<in> dom (tables s). tables s' r = tables s r) \<and>
     tables s' (next_ref s)
       = Some (patch_index (obs_id observation) output_directory (filename observation) t) \<and>
     files s' (new_index_path ds)
       = Some (patch_index (obs_id observation) output_directory (filename observation) t) \<and>
     (\<forall>path. path \<noteq> new_index_path ds \<longrightarrow> files s' path = files s path)"
proof -
  have fresh: "hdu_table ds \<noteq> next_ref s" by (rule store_ok_fresh[OF assms])
  have dom_fresh: "\<forall>r \<in> dom (tables s). r \<noteq> next_ref s"
    using assms(1) by (auto simp add: store_ok_def)
  let ?p = "patch_index (obs_id observation) output_directory (filename observation) t"
  let ?s' = "s\<lparr>tables := (tables s)(next_ref s \<mapsto> ?p), next_ref := Suc (next_ref s),
                files := (files s)(new_index_path ds \<mapsto> ?p)\<rparr>"
  have run: "write_modified_index s ds observation = Some ?s'"
    using assms(2) by (simp add: write_modified_index_def table_copy_def patch_table_def table_write_def)
  have "tables ?s' (hdu_table ds) = Some t" using fresh assms(2) by simp
  moreover have "\<forall>r \<in> dom (tables s). tables ?s' r = tables s r" using dom_fresh by simp
  moreover have "tables ?s' (next_ref s) = Some ?p" by simp
  moreover have "files ?s' (new_index_path ds) = Some ?p" by simp
  moreover have "\<forall>path. path \<noteq> new_index_path ds \<longrightarrow> files ?s' path = files s path" by simp
  ultimately show ?thesis using run by blast
qed

theorem index_patch_on_copy_witness:
  "store_ok \<lparr>tables = [0 \<mapsto> \<lparr>rows = [\<lparr>OBS_ID = 5029747, HDU_NAME = ''EVENTS'', FILE_DIR = ''./'',
           FILE_NAME = ''run.fits''\<rparr>], dir_width = 100, name_width = 100\<rparr>],
       next_ref = 1,
       files = [''dl3/hdu-index.fits.gz'' \<mapsto>
         \<lparr>rows = [\<lparr>OBS_ID = 5029747, HDU_NAME = ''EVENTS'', FILE_DIR = ''./'',
           FILE_NAME = ''run.fits''\<rparr>], dir_width = 100, name_width = 100\<rparr>]\<rparr> \<and>
   (\<exists>s'. write_modified_index
       \<lparr>tables = [0 \<mapsto> \<lparr>rows = [\<lparr>OBS_ID = 5029747, HDU_NAME = ''EVENTS'', FILE_DIR = ''./'',
           FILE_NAME = ''run.fits''\<rparr>], dir_width = 100, name_width = 100\<rparr>],
         next_ref = 1,
         files = [''dl3/hdu-index.fits.gz'' \<mapsto>
           \<lparr>rows = [\<lparr>OBS_ID = 5029747, HDU_NAME = ''EVENTS'', FILE_DIR = ''./'',
             FILE_NAME = ''run.fits''\<rparr>], dir_width = 100, name_width = 100\<rparr>]\<rparr>
       \<lparr>hdu_table = 0, base_dir = ''dl3''\<rparr>
       \<lparr>obs_id = 5029747, tstart = 55555, tstop = 55556, event_time = [],
         events_hdu = ''dl3/run.fits''\<rparr> = Some s' \<and>
     tables s' 0
       = Some \<lparr>rows = [\<lparr>OBS_ID = 5029747, HDU_NAME = ''EVENTS'', FILE_DIR = ''./'',
           FILE_NAME = ''run.fits''\<rparr>], dir_width = 100, name_width = 100\<rparr> \<and>
     files s' ''dl3/hdu-index.fits.gz''
       = Some \<lparr>rows = [\<lparr>OBS_ID = 5029747, HDU_NAME = ''EVENTS'', FILE_DIR = ''./'',
           FILE_NAME = ''run.fits''\<rparr>], dir_width = 100, name_width = 100\<rparr> \<and>
     files s' ''dl3/hdu-index-pulsar.fits.gz''
       = Some \<lparr>rows = [\<lparr>OBS_ID = 5029747, HDU_NAME = ''EVENTS'',
           FILE_DIR = ''./pulsar_events_file/'', FILE_NAME = ''dl3_pulsar_5029747.fits.gz''\<rparr>],
           dir_width = 100, name_width = 100\<rparr>)"
proof -
  let ?t = "\<lparr>rows = [\<lparr>OBS_ID = 5029747, HDU_NAME = ''EVENTS'', FILE_DIR = ''./'',
           FILE_NAME = ''run.fits''\<rparr>], dir_width = 100, name_width = 100\<rparr>"
  let ?s = "\<lparr>tables = [0 \<mapsto> ?t], next_ref = 1, files = [''dl3/hdu-index.fits.gz'' \<mapsto> ?t]\<rparr>"
  let ?ds = "\<lparr>hdu_table = 0, base_dir = ''dl3''\<rparr>"
  let ?o = "\<lparr>obs_id = 5029747, tstart = 55555, tstop = 55556, event_time = [],
         events_hdu = ''dl3/run.fits''\<rparr>"
  have ok: "store_ok ?s" by (simp add: store_ok_def)
  have tab: "tables ?s (hdu_table ?ds) = Some ?t" by simp
  have p: "new_index_path ?ds = ''dl3/hdu-index-pulsar.fits.gz''"
    by (simp add: new_index_path_def datastore_dir_def)
  have q: "patch_index (obs_id ?o) output_directory (filename ?o) ?t
      = \<lparr>rows = [\<lparr>OBS_ID = 5029747, HDU_NAME = ''EVENTS'',
           FILE_DIR = ''./pulsar_events_file/'', FILE_NAME = ''dl3_pulsar_5029747.fits.gz''\<rparr>],
           dir_width = 100, name_width = 100\<rparr>"
    by (simp add: patch_index_def string_assign_def output_directory_def filename_def
        format_04d_def str_nat.simps digit_char_def)
  from index_patch_on_copy[OF ok tab, of ?o] obtain s' where
    run: "write_modified_index ?s ?ds ?o = Some s'"
    and orig: "tables s' (hdu_table ?ds) = Some ?t"
    and new: "files s' (new_index_path ?ds)
       = Some (patch_index (obs_id ?o) output_directory (filename ?o) ?t)"
    and others: "\<forall>path. path \<noteq> new_index_path ?ds \<longrightarrow> files s' path = files ?s path"
    by blast
  have "files s' ''dl3/hdu-index.fits.gz'' = files ?s ''dl3/hdu-index.fits.gz''"
    using others by (simp add: p)
  then have old: "files s' ''dl3/hdu-index.fits.gz'' = Some ?t" by simp
  from orig have orig': "tables s' 0 = Some ?t" by simp
  from new have new': "files s' ''dl3/hdu-index-pulsar.fits.gz''
      = Some \<lparr>rows = [\<lparr>OBS_ID = 5029747, HDU_NAME = ''EVENTS'',
           FILE_DIR = ''./pulsar_events_file/'', FILE_NAME = ''dl3_pulsar_5029747.fits.gz''\<rparr>],
           dir_width = 100, name_width = 100\<rparr>"
    by (simp only: p q)
  from ok run orig' old new' show ?thesis by blast
qed

end
